theory Spec2Isabelle
  imports Complex_Main "HOL-Library.Product_Lexorder" "HOL-Library.Multiset"
    "HOL-Library.Log_Nat"
begin

section \<open>Python strings\<close>

text \<open>
  The scope engine (\<^verbatim>\<open>backend/app/utils/scope_engine.py\<close>) works on JSON text produced
  by a language model.  Strings are modelled as \<^typ>\<open>string\<close>: a character is a code
  point below 256 (Latin-1), so the model covers text in this range.  \<^verbatim>\<open>str.strip()\<close>
  removes from both ends the characters for which \<^verbatim>\<open>str.isspace()\<close> holds: the codes 9
  to 13, 28 to 32, 133 (next line) and 160 (no-break space).  \<^verbatim>\<open>str.lower()\<close> maps
  \<^verbatim>\<open>A-Z\<close> to \<^verbatim>\<open>a-z\<close> and the capital letters of Latin-1 (codes 192 to 222 except the
  multiplication sign 215) to their small letters, 32 further on.
\<close>

definition is_space :: "char \<Rightarrow> bool" where
  "is_space c =
     (let n = (of_char c :: nat)
      in (9 \<le> n \<and> n \<le> 13) \<or> (28 \<le> n \<and> n \<le> 32) \<or> n = 133 \<or> n = 160)"

definition strip :: "string \<Rightarrow> string" where
  "strip s = rev (dropWhile is_space (rev (dropWhile is_space s)))"

definition lower_char :: "char \<Rightarrow> char" where
  "lower_char c =
     (let n = (of_char c :: nat)
      in if (65 \<le> n \<and> n \<le> 90) \<or> (192 \<le> n \<and> n \<le> 222 \<and> n \<noteq> 215) then char_of (n + 32)
         else c)"

definition lower :: "string \<Rightarrow> string" where
  "lower s = map lower_char s"

text \<open>\<^verbatim>\<open>s.split(",")\<close>: the pieces between commas; the empty string gives one empty piece.\<close>

fun split_acc :: "char \<Rightarrow> string \<Rightarrow> string \<Rightarrow> string list" where
  "split_acc sep acc [] = [rev acc]"
| "split_acc sep acc (c # cs) =
     (if c = sep then rev acc # split_acc sep [] cs else split_acc sep (c # acc) cs)"

definition split_on :: "char \<Rightarrow> string \<Rightarrow> string list" where
  "split_on sep s = split_acc sep [] s"

text \<open>\<^verbatim>\<open>", ".join(xs)\<close>\<close>

fun join_comma :: "string list \<Rightarrow> string" where
  "join_comma [] = []"
| "join_comma [x] = x"
| "join_comma (x # y # ys) = x @ '', '' @ join_comma (y # ys)"

text \<open>\<^verbatim>\<open>sub in s\<close> for strings.\<close>

fun contains :: "string \<Rightarrow> string \<Rightarrow> bool" where
  "contains sub [] = (sub = [])"
| "contains sub (c # cs) = (take (length sub) (c # cs) = sub \<or> contains sub cs)"

section \<open>Dates\<close>

text \<open>
  Every \<^verbatim>\<open>datetime\<close> the normalizer handles is a naive midnight: \<^verbatim>\<open>today\<close> is cut to
  midnight and \<^verbatim>\<open>strptime(_, "%Y-%m-%d")\<close> yields one.  A datetime is therefore the triple
  of its fields (year, month, day); Python compares datetimes field by field, which is the
  lexicographic order on the triple.
\<close>

type_synonym datetime = "nat \<times> nat \<times> nat"

datatype error = ValueError | OverflowError | AttributeError | TypeError | DatabaseError

definition is_leap :: "nat \<Rightarrow> bool" where
  "is_leap y = (y mod 4 = 0 \<and> (y mod 100 \<noteq> 0 \<or> y mod 400 = 0))"

definition days_in_month :: "nat \<Rightarrow> nat \<Rightarrow> nat" where
  "days_in_month y m =
     (if m = 2 then (if is_leap y then 29 else 28)
      else if m = 4 \<or> m = 6 \<or> m = 9 \<or> m = 11 then 30 else 31)"

text \<open>The dates \<^verbatim>\<open>datetime(y, m, d)\<close> accepts (\<^verbatim>\<open>MINYEAR = 1\<close>, \<^verbatim>\<open>MAXYEAR = 9999\<close>).\<close>

definition valid_date :: "datetime \<Rightarrow> bool" where
  "valid_date dt = (case dt of (y, m, d) \<Rightarrow>
     1 \<le> y \<and> y \<le> 9999 \<and> 1 \<le> m \<and> m \<le> 12 \<and> 1 \<le> d \<and> d \<le> days_in_month y m)"

text \<open>\<^verbatim>\<open>date.toordinal()\<close>: day 1 is 0001-01-01.\<close>

definition days_before_year :: "nat \<Rightarrow> int" where
  "days_before_year y = (let p = int y - 1 in p * 365 + p div 4 - p div 100 + p div 400)"

definition days_before_month :: "nat \<Rightarrow> nat \<Rightarrow> int" where
  "days_before_month y m = (\<Sum>k\<leftarrow>[1..<m]. int (days_in_month y k))"

definition toordinal :: "datetime \<Rightarrow> int" where
  "toordinal dt = (case dt of (y, m, d) \<Rightarrow> days_before_year y + days_before_month y m + int d)"

text \<open>\<^verbatim>\<open>(a - b).days\<close>\<close>

definition days_between :: "datetime \<Rightarrow> datetime \<Rightarrow> int" where
  "days_between a b = toordinal a - toordinal b"

text \<open>
  \<^verbatim>\<open>dt + timedelta(days=k)\<close> for \<^verbatim>\<open>k \<ge> 0\<close>: the \<open>k\<close>-th day after \<open>dt\<close>; Python raises
  \<^verbatim>\<open>OverflowError\<close> when the result lies beyond 9999-12-31.
\<close>

definition next_day :: "datetime \<Rightarrow> datetime" where
  "next_day dt = (case dt of (y, m, d) \<Rightarrow>
     if d < days_in_month y m then (y, m, d + 1)
     else if m < 12 then (y, m + 1, 1) else (y + 1, 1, 1))"

fun days_after :: "nat \<Rightarrow> datetime \<Rightarrow> datetime" where
  "days_after 0 dt = dt"
| "days_after (Suc k) dt = days_after k (next_day dt)"

definition add_days :: "datetime \<Rightarrow> nat \<Rightarrow> error + datetime" where
  "add_days dt k = (let r = days_after k dt in if fst r > 9999 then Inl OverflowError else Inr r)"

subsection \<open>Parsing and printing \<^verbatim>\<open>%Y-%m-%d\<close>\<close>

definition is_digit :: "char \<Rightarrow> bool" where
  "is_digit c = (let n = (of_char c :: nat) in 48 \<le> n \<and> n \<le> 57)"

definition digit_val :: "char \<Rightarrow> nat" where
  "digit_val c = of_char c - 48"

definition digit_char :: "nat \<Rightarrow> char" where
  "digit_char n = ''0123456789'' ! (n mod 10)"

text \<open>
  \<^verbatim>\<open>strptime\<close> turns the format into the regular expression
  \<^verbatim>\<open>(\d\d\d\d)-(1[0-2]|0[1-9]|[1-9])-(3[0-1]|[1-2]\d|0[1-9]|[1-9]| [1-9])\<close>, matches it at the
  start of the text and rejects text that remains after the match.  The alternatives of
  the month are tried in order; a later one never succeeds where an earlier one matched and
  the following \<^verbatim>\<open>-\<close> did not, so the matcher below needs no backtracking.
\<close>

fun re_month :: "string \<Rightarrow> (nat \<times> string) option" where
  "re_month (a # b # cs) =
     (if is_digit a \<and> digit_val a = 1 \<and> is_digit b \<and> digit_val b \<le> 2
        then Some (10 + digit_val b, cs)
      else if is_digit a \<and> digit_val a = 0 \<and> is_digit b \<and> 1 \<le> digit_val b
        then Some (digit_val b, cs)
      else if is_digit a \<and> 1 \<le> digit_val a then Some (digit_val a, b # cs)
      else None)"
| "re_month [a] = (if is_digit a \<and> 1 \<le> digit_val a then Some (digit_val a, []) else None)"
| "re_month [] = None"

fun re_day :: "string \<Rightarrow> (nat \<times> string) option" where
  "re_day (a # b # cs) =
     (if is_digit a \<and> digit_val a = 3 \<and> is_digit b \<and> digit_val b \<le> 1
        then Some (30 + digit_val b, cs)
      else if is_digit a \<and> 1 \<le> digit_val a \<and> digit_val a \<le> 2 \<and> is_digit b
        then Some (10 * digit_val a + digit_val b, cs)
      else if is_digit a \<and> digit_val a = 0 \<and> is_digit b \<and> 1 \<le> digit_val b
        then Some (digit_val b, cs)
      else if is_digit a \<and> 1 \<le> digit_val a then Some (digit_val a, b # cs)
      else if a = CHR '' '' \<and> is_digit b \<and> 1 \<le> digit_val b then Some (digit_val b, cs)
      else None)"
| "re_day [a] = (if is_digit a \<and> 1 \<le> digit_val a then Some (digit_val a, []) else None)"
| "re_day [] = None"

text \<open>\<^verbatim>\<open>datetime.strptime(s, "%Y-%m-%d")\<close>; \<open>None\<close> stands for the \<^verbatim>\<open>ValueError\<close>.\<close>

definition strptime :: "string \<Rightarrow> datetime option" where
  "strptime s =
     (case s of
        y1 # y2 # y3 # y4 # rest \<Rightarrow>
          if is_digit y1 \<and> is_digit y2 \<and> is_digit y3 \<and> is_digit y4 then
            (case rest of
               c1 # rest1 \<Rightarrow>
                 if c1 = CHR ''-'' then
                   (case re_month rest1 of
                      Some (m, c2 # rest2) \<Rightarrow>
                        if c2 = CHR ''-'' then
                          (case re_day rest2 of
                             Some (d, []) \<Rightarrow>
                               (let y = 1000 * digit_val y1 + 100 * digit_val y2
                                        + 10 * digit_val y3 + digit_val y4
                                in if valid_date (y, m, d) then Some (y, m, d) else None)
                           | _ \<Rightarrow> None)
                        else None
                    | _ \<Rightarrow> None)
                 else None
             | [] \<Rightarrow> None)
          else None
      | _ \<Rightarrow> None)"

text \<open>
  \<^verbatim>\<open>dt.strftime("%Y-%m-%d")\<close>.  Python hands \<^verbatim>\<open>%Y\<close> to the C library, and the C library of
  Linux prints the year without leading zeros (\<^verbatim>\<open>datetime(999, 1, 1)\<close> gives
  \<^verbatim>\<open>999-01-01\<close>); month and day have two digits.  \<open>year_text\<close> prints a year up to 9999.
\<close>

definition year_text :: "nat \<Rightarrow> string" where
  "year_text y =
     (if y < 10 then [digit_char y]
      else if y < 100 then [digit_char (y div 10), digit_char y]
      else if y < 1000 then [digit_char (y div 100), digit_char (y div 10), digit_char y]
      else [digit_char (y div 1000), digit_char (y div 100), digit_char (y div 10), digit_char y])"

definition strftime :: "datetime \<Rightarrow> string" where
  "strftime dt = (case dt of (y, m, d) \<Rightarrow>
     year_text y @
     [CHR ''-'', digit_char (m div 10), digit_char m,
      CHR ''-'', digit_char (d div 10), digit_char d])"

section \<open>The quantization of overlap days\<close>

text \<open>
  \<^verbatim>\<open>clean_scope\<close>, "Convert days to effort with 4-tier partial-month logic".  The day
  counts are sums of integers (held in floats, exactly); the effort units 0.25, 0.5, 0.75
  and 1.0 are floats.
\<close>

definition quantize :: "int \<Rightarrow> rat" where
  "quantize days =
     (if days > 21 then 1
      else if 15 \<le> days \<and> days \<le> 21 then 3 / 4
      else if 8 \<le> days \<and> days < 15 then 1 / 2
      else if 1 \<le> days \<and> days < 8 then 1 / 4
      else 0)"

section \<open>JSON data\<close>

text \<open>
  A key of a JSON object is absent, holds \<^verbatim>\<open>null\<close>, or holds a value.  The text fields of
  an activity hold strings: that is what the prompts ask the model for and what
  \<^verbatim>\<open>clean_scope\<close> itself writes.  Numbers, lists or objects in these fields are
  outside the model.
\<close>

datatype 'a jopt = Absent | JNull | JVal 'a

type_synonym jfield = "string jopt"

text \<open>
  An activity dictionary.  \<^verbatim>\<open>clean_scope\<close> reads the six text keys and writes all eight;
  it never reads \<^verbatim>\<open>ID\<close> or \<^verbatim>\<open>Effort Months\<close>.
\<close>

record activity =
  ID :: int
  Activities :: jfield
  Description :: jfield
  Owner :: jfield
  Resources :: jfield
  Start_Date :: jfield
  End_Date :: jfield
  Effort_Months :: rat

text \<open>An entry of \<^verbatim>\<open>resourcing_plan\<close>; \<open>Months\<close> holds the values of the keys
  \<^verbatim>\<open>Month 1\<close>, ..., \<^verbatim>\<open>Month K\<close> in this order.\<close>

record plan_entry =
  Plan_ID :: int
  Plan_Resources :: string
  Rate_month :: rat
  Months :: "rat list"
  Efforts :: rat
  Cost :: rat

text \<open>
  The scope dictionary, as far as \<^verbatim>\<open>clean_scope\<close> and the regeneration guard use it.
  The value of \<^verbatim>\<open>discount_percentage\<close> is absent, a number (an \<^verbatim>\<open>int\<close> or a \<^verbatim>\<open>float\<close>), a
  boolean (in Python a \<^verbatim>\<open>bool\<close> is an \<^verbatim>\<open>int\<close>: \<^verbatim>\<open>True\<close> is 1 and \<^verbatim>\<open>False\<close> is 0), or a
  value of another type (\<^verbatim>\<open>null\<close>, a string, a list, an object), of which only the truth
  value matters.  The overview (free text and a time stamp) is left out.
\<close>

datatype discount = No_Discount | Discount_Number rat | Discount_Bool bool | Discount_Other bool

record scope =
  activities :: "activity list jopt"
  resourcing_plan :: "plan_entry list jopt"
  discount_percentage :: discount

text \<open>\<^verbatim>\<open>d.get(k) or default\<close> for a text key.\<close>

definition get_or :: "jfield \<Rightarrow> string \<Rightarrow> string" where
  "get_or f d = (case f of JVal s \<Rightarrow> (if s = [] then d else s) | _ \<Rightarrow> d)"

text \<open>\<^verbatim>\<open>d.get(k, default)\<close>: only an absent key gives the default.\<close>

definition get_default :: "'a jopt \<Rightarrow> 'a \<Rightarrow> 'a jopt" where
  "get_default f d = (case f of Absent \<Rightarrow> JVal d | _ \<Rightarrow> f)"

text \<open>\<^verbatim>\<open>_safe_str(d.get(k))\<close>\<close>

definition safe_str :: "jfield \<Rightarrow> string" where
  "safe_str f = (case f of JVal s \<Rightarrow> strip s | _ \<Rightarrow> [])"

text \<open>\<^verbatim>\<open>_parse_date_safe(d.get(k), fallback)\<close>\<close>

definition parse_date_safe :: "jfield \<Rightarrow> datetime \<Rightarrow> datetime" where
  "parse_date_safe f fallback =
     (case f of
        JVal s \<Rightarrow> (if s = [] then fallback
                   else (case strptime s of Some dt \<Rightarrow> dt | None \<Rightarrow> fallback))
      | _ \<Rightarrow> fallback)"

text \<open>\<^verbatim>\<open>[d.strip() for d in str(a.get("Resources") or "").split(",") if d.strip()]\<close>\<close>

definition split_roles :: "jfield \<Rightarrow> string list" where
  "split_roles f = filter (\<lambda>d. d \<noteq> []) (map strip (split_on (CHR '','') (get_or f [])))"

section \<open>Floats\<close>

text \<open>
  A Python \<^verbatim>\<open>float\<close> is an IEEE 754 binary64 number.  A finite float is modelled by the
  rational number it denotes, and an integer by itself.  An arithmetic operation on floats
  returns the exact result rounded to the nearest float, ties to the even mantissa:
  \<open>to_double\<close> of the exact result.  A float in the normal range has a mantissa of 53 bits:
  it is \<open>m * 2 ^ e\<close> with \<open>2 ^ 52 \<le> \<bar>m\<bar> < 2 ^ 53\<close>, where \<open>e + 52\<close> is the binade of its
  magnitude.  Infinities, NaN, and results below \<open>2 ^ -1022\<close> or above \<open>2 ^ 1023\<close> in
  magnitude are outside the model.
\<close>

text \<open>The integer nearest to \<open>x\<close>, ties to even.\<close>

definition round_half_even :: "rat \<Rightarrow> int" where
  "round_half_even x =
     (let f = floor x; r = x - of_int f
      in if r < 1 / 2 then f else if r > 1 / 2 then f + 1 else if even f then f else f + 1)"

text \<open>The \<open>b\<close> with \<open>2 ^ b \<le> x < 2 ^ (b + 1)\<close>, for \<open>x > 0\<close>, from the bit lengths of numerator
  and denominator.\<close>

definition binade :: "rat \<Rightarrow> int" where
  "binade x = (case quotient_of x of (p, q) \<Rightarrow>
     let d = bitlen p - bitlen q in if 2 powi d \<le> x then d else d - 1)"

definition to_double :: "rat \<Rightarrow> rat" where
  "to_double x =
     (if x = 0 then 0
      else let e = binade \<bar>x\<bar> - 52 in of_int (round_half_even (x / 2 powi e)) * 2 powi e)"

text \<open>
  \<^verbatim>\<open>round(x, 2)\<close> for a float \<open>x\<close>: the value of \<open>x\<close> is rounded to the nearest hundredth,
  ties to even, and the float nearest to that decimal is returned.
\<close>

definition py_round2 :: "rat \<Rightarrow> rat" where
  "py_round2 x = to_double (of_int (round_half_even (x * 100)) / 100)"

section \<open>Rate cards\<close>

text \<open>\<^verbatim>\<open>ROLE_RATE_MAP\<close>: the built-in rates (USD per month).\<close>

definition ROLE_RATE_MAP :: "(string \<times> rat) list" where
  "ROLE_RATE_MAP =
     [(''Backend Developer'', 3000), (''Frontend Developer'', 2800), (''QA Analyst'', 1800),
      (''QA Engineer'', 2000), (''Data Engineer'', 2800), (''Data Analyst'', 2200),
      (''Data Architect'', 3500), (''UX Designer'', 2500), (''UI/UX Designer'', 2600),
      (''Project Manager'', 3500), (''Cloud Engineer'', 3000), (''BI Developer'', 2700),
      (''DevOps Engineer'', 3200), (''Security Administrator'', 3000),
      (''System Administrator'', 2800), (''Solution Architect'', 4000)]"

text \<open>
  The database, as far as the rate lookup queries it: the \<^verbatim>\<open>RateCard\<close> rows of a company
  (role name and monthly rate) and the company named \<^verbatim>\<open>Sigmoid\<close>, if there is one.
  Either query can raise.  A project carries the id of its company, if any; the ids are
  UUIDs (every one of them is true in a condition) and are modelled by natural numbers.
\<close>

record database =
  rate_cards :: "nat \<Rightarrow> error + (string \<times> rat) list"
  sigmoid_company :: "error + nat option"

record project =
  company_id :: "nat option"

text \<open>\<^verbatim>\<open>{r.role_name: float(r.monthly_rate) for r in rows}\<close>: a later row replaces an
  earlier one of the same role.\<close>

definition rate_dict :: "(string \<times> rat) list \<Rightarrow> (string \<rightharpoonup> rat)" where
  "rate_dict rows = map_of (rev rows)"

text \<open>\<^verbatim>\<open>get_rate_map_for_project\<close>: any exception inside the \<^verbatim>\<open>try\<close> ends in the
  built-in table.\<close>

definition company_rates :: "database \<Rightarrow> project option \<Rightarrow> error + (string \<rightharpoonup> rat) option" where
  "company_rates db proj =
     (case (case proj of None \<Rightarrow> None | Some p \<Rightarrow> company_id p) of
        None \<Rightarrow> Inr None
      | Some cid \<Rightarrow>
          (case rate_cards db cid of
             Inl e \<Rightarrow> Inl e
           | Inr ratecards \<Rightarrow> Inr (if ratecards \<noteq> [] then Some (rate_dict ratecards) else None)))"

definition sigmoid_rates :: "database \<Rightarrow> error + (string \<rightharpoonup> rat) option" where
  "sigmoid_rates db =
     (case sigmoid_company db of
        Inl e \<Rightarrow> Inl e
      | Inr None \<Rightarrow> Inr None
      | Inr (Some sid) \<Rightarrow>
          (case rate_cards db sid of
             Inl e \<Rightarrow> Inl e
           | Inr sigmoid_rows \<Rightarrow>
               Inr (if sigmoid_rows \<noteq> [] then Some (rate_dict sigmoid_rows) else None)))"

definition get_rate_map_for_project :: "database \<Rightarrow> project option \<Rightarrow> (string \<rightharpoonup> rat)" where
  "get_rate_map_for_project db proj =
     (case company_rates db proj of
        Inl e \<Rightarrow> map_of ROLE_RATE_MAP
      | Inr (Some m) \<Rightarrow> m
      | Inr None \<Rightarrow>
          (case sigmoid_rates db of
             Inl e \<Rightarrow> map_of ROLE_RATE_MAP
           | Inr (Some m) \<Rightarrow> m
           | Inr None \<Rightarrow> map_of ROLE_RATE_MAP))"

text \<open>\<^verbatim>\<open>clean_scope\<close>: the rate map in force (\<^verbatim>\<open>ROLE_RATE_MAP_DYNAMIC\<close>) and the rate of a
  role, \<^verbatim>\<open>ROLE_RATE_MAP_DYNAMIC.get(role, ROLE_RATE_MAP.get(role, 2000.0))\<close>.\<close>

definition rate_map_dynamic :: "database option \<Rightarrow> project option \<Rightarrow> (string \<rightharpoonup> rat)" where
  "rate_map_dynamic db proj =
     (case db of None \<Rightarrow> map_of ROLE_RATE_MAP | Some d \<Rightarrow> get_rate_map_for_project d proj)"

definition role_rate :: "(string \<rightharpoonup> rat) \<Rightarrow> string \<Rightarrow> rat" where
  "role_rate dyn role =
     (case dyn role of
        Some r \<Rightarrow> r
      | None \<Rightarrow> (case map_of ROLE_RATE_MAP role of Some r \<Rightarrow> r | None \<Rightarrow> 2000))"

section \<open>The schedule normalizer\<close>

text \<open>
  \<^verbatim>\<open>month_effort\<close>, the helper inside \<^verbatim>\<open>clean_scope\<close>.  The dictionary it returns is
  keyed by calendar month (the pair of year and month stands for the label
  \<^verbatim>\<open>strftime('%b %Y')\<close>).  It raises \<^verbatim>\<open>ValueError\<close> when the walk leaves December 9999.
  The test \<^verbatim>\<open>month == 12\<close> is written \<open>month \<ge> 12\<close>: a datetime has no month above 12, and
  the function is total on all triples this way.
\<close>

function month_effort_loop ::
  "datetime \<Rightarrow> datetime \<Rightarrow> datetime \<Rightarrow> (nat \<times> nat \<rightharpoonup> rat) \<Rightarrow> error + (nat \<times> nat \<rightharpoonup> rat)" where
  "month_effort_loop s e cur month_eff =
     (if cur \<le> e then
        (case cur of (year, month, day) \<Rightarrow>
           let days_in = days_in_month year month;
               start_day = (if month = fst (snd s) then day else 1);
               end_day = (if month = fst (snd e) then snd (snd e) else days_in);
               days_count = int end_day - int start_day + 1;
               month_eff' = month_eff((year, month) \<mapsto> py_round2 (to_double (of_int days_count / 30)))
           in if month \<ge> 12 then
                (if year + 1 > 9999 then Inl ValueError
                 else month_effort_loop s e (year + 1, 1, 1) month_eff')
              else month_effort_loop s e (year, month + 1, 1) month_eff')
      else Inr month_eff)"
  by pat_completeness auto
termination
  by (relation "measure (\<lambda>(s, e, cur, m). 12 * fst e + 26 - (12 * fst cur + min (fst (snd cur)) 12))")
     auto

declare month_effort_loop.simps [simp del]

definition month_effort :: "datetime \<Rightarrow> datetime \<Rightarrow> error + (nat \<times> nat \<rightharpoonup> rat)" where
  "month_effort s e = month_effort_loop s e s Map.empty"

text \<open>
  An entry of the list \<^verbatim>\<open>activities\<close> while the dates are still datetimes (before the
  sort and the formatting).
\<close>

record dated =
  d_ID :: int
  d_Activities :: string
  d_Description :: string
  d_Owner :: string
  d_Resources :: string
  d_Start :: datetime
  d_End :: datetime
  d_Effort :: rat

text \<open>The owner of an activity, its other resources and all its roles (first loop).\<close>

definition owner_of :: "activity \<Rightarrow> string" where
  "owner_of a = get_or (Owner a) ''Unassigned''"

definition raw_deps :: "activity \<Rightarrow> string list" where
  "raw_deps a = filter (\<lambda>r. lower r \<noteq> lower (owner_of a)) (split_roles (Resources a))"

definition roles_of :: "activity \<Rightarrow> string list" where
  "roles_of a = owner_of a # raw_deps a"

text \<open>
  The dates of an activity: an absent or unparseable start is \<^verbatim>\<open>today\<close>, an absent or
  unparseable end is the start plus 30 days, and so is an end before the start.  The
  fallback \<^verbatim>\<open>s + timedelta(days=30)\<close> is an argument of the call, so it is computed (and
  may overflow) whatever the end date is.
\<close>

definition activity_dates :: "datetime \<Rightarrow> activity \<Rightarrow> error + datetime \<times> datetime" where
  "activity_dates today a =
     (let s = parse_date_safe (Start_Date a) today
      in case add_days s 30 of
           Inl err \<Rightarrow> Inl err
         | Inr s30 \<Rightarrow>
             (let e = parse_date_safe (End_Date a) s30
              in Inr (s, if e < s then s30 else e)))"

definition dated_of :: "datetime \<Rightarrow> int \<Rightarrow> activity \<Rightarrow> error + dated" where
  "dated_of today idx a =
     (case activity_dates today a of
        Inl err \<Rightarrow> Inl err
      | Inr (s, e) \<Rightarrow>
          (case month_effort s e of
             Inl err \<Rightarrow> Inl err
           | Inr month_alloc \<Rightarrow>
               (let dur_days = max 1 (days_between e s)
                in Inr \<lparr>d_ID = idx,
                        d_Activities = safe_str (Activities a),
                        d_Description = safe_str (Description a),
                        d_Owner = owner_of a,
                        d_Resources = join_comma (raw_deps a),
                        d_Start = s,
                        d_End = e,
                        d_Effort = py_round2 (to_double (of_int dur_days / 30))\<rparr>)))"

text \<open>
  The state of the first loop.  \<^verbatim>\<open>role_month_map\<close> is filled from \<^verbatim>\<open>month_effort\<close> but
  only its keys are used afterwards, and they are the elements of \<^verbatim>\<open>role_order\<close>; the
  model keeps \<^verbatim>\<open>role_order\<close>.
\<close>

record loop_state =
  st_activities :: "dated list"
  st_start_dates :: "datetime list"
  st_end_dates :: "datetime list"
  st_role_order :: "string list"

definition add_role :: "string \<Rightarrow> string list \<Rightarrow> string list" where
  "add_role role order = (if role \<in> set order then order else order @ [role])"

definition process_activity :: "datetime \<Rightarrow> int \<Rightarrow> activity \<Rightarrow> loop_state \<Rightarrow> error + loop_state" where
  "process_activity today idx a st =
     (case dated_of today idx a of
        Inl err \<Rightarrow> Inl err
      | Inr d \<Rightarrow>
          Inr \<lparr>st_activities = st_activities st @ [d],
               st_start_dates = st_start_dates st @ [d_Start d],
               st_end_dates = st_end_dates st @ [d_End d],
               st_role_order = fold add_role (roles_of a) (st_role_order st)\<rparr>)"

fun process_activities :: "datetime \<Rightarrow> int \<Rightarrow> activity list \<Rightarrow> loop_state \<Rightarrow> error + loop_state" where
  "process_activities today idx [] st = Inr st"
| "process_activities today idx (a # as) st =
     (case process_activity today idx a st of
        Inl err \<Rightarrow> Inl err
      | Inr st' \<Rightarrow> process_activities today (idx + 1) as st')"

text \<open>The sort by start date (Python's sort is stable, as \<^const>\<open>sort_key\<close> is), the new ids
  and the formatting of the dates.\<close>

definition finish_activity :: "int \<Rightarrow> dated \<Rightarrow> activity" where
  "finish_activity idx d =
     \<lparr>ID = idx,
      Activities = JVal (d_Activities d),
      Description = JVal (d_Description d),
      Owner = JVal (d_Owner d),
      Resources = JVal (d_Resources d),
      Start_Date = JVal (strftime (d_Start d)),
      End_Date = JVal (strftime (d_End d)),
      Effort_Months = d_Effort d\<rparr>"

fun renumber :: "int \<Rightarrow> dated list \<Rightarrow> activity list" where
  "renumber idx [] = []"
| "renumber idx (d # ds) = finish_activity idx d # renumber (idx + 1) ds"

text \<open>\<^verbatim>\<open>min(xs) if xs else default\<close> and \<^verbatim>\<open>max(xs) if xs else default\<close>\<close>

definition min_or :: "datetime list \<Rightarrow> datetime \<Rightarrow> datetime" where
  "min_or xs dflt = (case xs of [] \<Rightarrow> dflt | x # rest \<Rightarrow> fold min rest x)"

definition max_or :: "datetime list \<Rightarrow> datetime \<Rightarrow> datetime" where
  "max_or xs dflt = (case xs of [] \<Rightarrow> dflt | x # rest \<Rightarrow> fold max rest x)"

text \<open>\<^verbatim>\<open>max(1, math.ceil(days / 30.0))\<close>.  The float quotient is on the same side of every
  integer as the exact quotient (which is an integer or at least 1/30 away from one), so
  the ceiling is that of the exact quotient.\<close>

definition total_months_of :: "int \<Rightarrow> nat" where
  "total_months_of days = nat (max 1 (ceiling (of_int days / (30 :: rat))))"

subsection \<open>Days per role and relative month\<close>

text \<open>
  \<^verbatim>\<open>role_month_usage\<close> maps a role to a dictionary with the keys \<^verbatim>\<open>Month 1\<close>, ...,
  \<^verbatim>\<open>Month K\<close>.  The inner dictionary is the list of its \<open>K\<close> values (index \<open>m_idx\<close> for
  \<^verbatim>\<open>Month m_idx+1\<close>); the outer one is an association list in insertion order.
\<close>

type_synonym 'a usage = "(string \<times> 'a list) list"

definition update_usage :: "string \<Rightarrow> 'a list \<Rightarrow> 'a usage \<Rightarrow> 'a usage" where
  "update_usage r row u =
     (if r \<in> fst ` set u then map (\<lambda>(k, v). if k = r then (k, row) else (k, v)) u
      else u @ [(r, row)])"

definition add_usage :: "nat \<Rightarrow> nat \<Rightarrow> int \<Rightarrow> string \<Rightarrow> int usage \<Rightarrow> int usage" where
  "add_usage K m_idx overlap r u =
     (let row = (case map_of u r of None \<Rightarrow> replicate K 0 | Some row \<Rightarrow> row)
      in update_usage r (row[m_idx := row ! m_idx + overlap]) u)"

definition overlap_days :: "datetime \<Rightarrow> datetime \<Rightarrow> datetime \<Rightarrow> datetime \<Rightarrow> int" where
  "overlap_days s e rel_start rel_end =
     (let overlap_start = max s rel_start; overlap_end = min e rel_end
      in if overlap_end \<ge> overlap_start then days_between overlap_end overlap_start + 1 else 0)"

fun usage_months ::
  "datetime \<Rightarrow> nat \<Rightarrow> datetime \<Rightarrow> datetime \<Rightarrow> string list \<Rightarrow> nat list \<Rightarrow> int usage \<Rightarrow> error + int usage" where
  "usage_months min_start K s e involved_roles [] u = Inr u"
| "usage_months min_start K s e involved_roles (m_idx # rest) u =
     (case add_days min_start (m_idx * 30) of
        Inl err \<Rightarrow> Inl err
      | Inr rel_start \<Rightarrow>
          (case add_days min_start ((m_idx + 1) * 30) of
             Inl err \<Rightarrow> Inl err
           | Inr rel_end \<Rightarrow>
               (let od = overlap_days s e rel_start rel_end
                in usage_months min_start K s e involved_roles rest
                     (if od > 0 then fold (add_usage K m_idx od) involved_roles u else u))))"

definition involved_roles_of :: "activity \<Rightarrow> string list" where
  "involved_roles_of act = get_or (Owner act) ''Unassigned'' # split_roles (Resources act)"

definition usage_activity ::
  "datetime \<Rightarrow> datetime \<Rightarrow> nat \<Rightarrow> activity \<Rightarrow> int usage \<Rightarrow> error + int usage" where
  "usage_activity today min_start K act u =
     (case activity_dates today act of
        Inl err \<Rightarrow> Inl err
      | Inr (s, e) \<Rightarrow> usage_months min_start K s e (involved_roles_of act) [0..<K] u)"

fun usage_loop ::
  "datetime \<Rightarrow> datetime \<Rightarrow> nat \<Rightarrow> activity list \<Rightarrow> int usage \<Rightarrow> error + int usage" where
  "usage_loop today min_start K [] u = Inr u"
| "usage_loop today min_start K (act # acts) u =
     (case usage_activity today min_start K act u of
        Inl err \<Rightarrow> Inl err
      | Inr u' \<Rightarrow> usage_loop today min_start K acts u')"

text \<open>The conversion of the day counts, in place, by \<^const>\<open>quantize\<close>.\<close>

definition quantize_usage :: "int usage \<Rightarrow> rat usage" where
  "quantize_usage u = map (\<lambda>(r, months). (r, map quantize months)) u"

text \<open>
  What the normalizer computes from the activity list: the sorted, renumbered and
  formatted activities, the order in which the roles were met, the number \<open>K\<close> of relative
  months, and the day counts and the effort per role and month.
\<close>

record normalized =
  n_activities :: "activity list"
  n_role_order :: "string list"
  n_total_months :: nat
  n_days :: "int usage"
  n_role_month_usage :: "rat usage"

definition normalize :: "datetime \<Rightarrow> activity list \<Rightarrow> error + normalized" where
  "normalize today acts =
     (case process_activities today 1 acts
             \<lparr>st_activities = [], st_start_dates = [], st_end_dates = [], st_role_order = []\<rparr> of
        Inl err \<Rightarrow> Inl err
      | Inr st \<Rightarrow>
          (let sorted_acts = renumber 1 (sort_key d_Start (st_activities st));
               min_start = min_or (st_start_dates st) today;
               max_end = max_or (st_end_dates st) min_start;
               total_months = total_months_of (days_between max_end min_start);
               usage0 = map (\<lambda>r. (r, replicate total_months 0)) (st_role_order st)
           in case usage_loop today min_start total_months sorted_acts usage0 of
                Inl err \<Rightarrow> Inl err
              | Inr days \<Rightarrow>
                  Inr \<lparr>n_activities = sorted_acts,
                       n_role_order = st_role_order st,
                       n_total_months = total_months,
                       n_days = days,
                       n_role_month_usage = quantize_usage days\<rparr>))"

section \<open>The resource and cost aggregator\<close>

text \<open>
  The plan has one entry per role of \<^verbatim>\<open>role_order\<close>.  \<^verbatim>\<open>sum(month_efforts.values())\<close> adds
  multiples of 0.25, which floats do exactly; the product with the rate is rounded to a
  float and then to two decimals.
\<close>

fun build_plan :: "(string \<rightharpoonup> rat) \<Rightarrow> rat usage \<Rightarrow> nat \<Rightarrow> int \<Rightarrow> string list \<Rightarrow> plan_entry list" where
  "build_plan dyn u K idx [] = []"
| "build_plan dyn u K idx (role # roles) =
     (let month_efforts = (case map_of u role of Some row \<Rightarrow> row | None \<Rightarrow> replicate K 0);
          total_effort = sum_list month_efforts;
          rate = role_rate dyn role;
          cost = py_round2 (to_double (total_effort * rate))
      in \<lparr>Plan_ID = idx, Plan_Resources = role, Rate_month = rate, Months = month_efforts,
          Efforts = total_effort, Cost = cost\<rparr> # build_plan dyn u K (idx + 1) roles)"

text \<open>
  The discount.  The test
  \<^verbatim>\<open>discount_percentage and isinstance(discount_percentage, (int, float)) and discount_percentage > 0\<close>
  holds of a number above 0 and of \<^verbatim>\<open>True\<close>.  The multiplier is
  \<^verbatim>\<open>1 - (discount_percentage / 100.0)\<close>; it is applied to the cost already rounded, and the
  product is rounded again.
\<close>

definition discount_applies :: "discount \<Rightarrow> bool" where
  "discount_applies dp =
     (case dp of Discount_Number d \<Rightarrow> d > 0 | Discount_Bool b \<Rightarrow> b | _ \<Rightarrow> False)"

definition discount_value :: "discount \<Rightarrow> rat" where
  "discount_value dp =
     (case dp of Discount_Number d \<Rightarrow> d | Discount_Bool b \<Rightarrow> (if b then 1 else 0) | _ \<Rightarrow> 0)"

definition discount_multiplier :: "rat \<Rightarrow> rat" where
  "discount_multiplier d = to_double (1 - to_double (to_double d / 100))"

definition apply_discount :: "discount \<Rightarrow> plan_entry list \<Rightarrow> plan_entry list" where
  "apply_discount dp plan =
     (if discount_applies dp then
        (let discount_multiplier = discount_multiplier (discount_value dp)
         in map (\<lambda>p. p\<lparr>Cost := py_round2 (to_double (Cost p * discount_multiplier))\<rparr>) plan)
      else plan)"

text \<open>\<^verbatim>\<open>clean_scope(db, data, project)\<close>; \<open>today\<close> is the date the clock gives.\<close>

definition scope_activities :: "scope \<Rightarrow> activity list" where
  "scope_activities data = (case activities data of JVal acts \<Rightarrow> acts | _ \<Rightarrow> [])"

definition clean_scope ::
  "datetime \<Rightarrow> database option \<Rightarrow> project option \<Rightarrow> scope \<Rightarrow> error + scope" where
  "clean_scope today db proj data =
     (case normalize today (scope_activities data) of
        Inl err \<Rightarrow> Inl err
      | Inr n \<Rightarrow>
          (let plan = build_plan (rate_map_dynamic db proj) (n_role_month_usage n)
                        (n_total_months n) 1 (n_role_order n)
           in Inr \<lparr>activities = JVal (n_activities n),
                   resourcing_plan = JVal (apply_discount (discount_percentage data) plan),
                   discount_percentage = discount_percentage data\<rparr>))"

section \<open>Reading the model's reply\<close>

text \<open>
  \<^verbatim>\<open>_strip_code_fences\<close> searches for a fence of three backquotes, an optional
  \<^verbatim>\<open>json\<close> (case ignored), a lazy group of any characters and a second fence, and returns
  the group, or the text itself when nothing matches.  The search succeeds at the first
  fence that is followed, after the optional \<^verbatim>\<open>json\<close>, by another fence; the lazy group
  ends at the first such fence.  If the first fence has no closing fence, no later one has.
\<close>

definition fence :: string where
  "fence = [CHR 0x60, CHR 0x60, CHR 0x60]"

fun find_sub :: "string \<Rightarrow> string \<Rightarrow> (string \<times> string) option" where
  "find_sub sub [] = (if sub = [] then Some ([], []) else None)"
| "find_sub sub (c # cs) =
     (if take (length sub) (c # cs) = sub then Some ([], drop (length sub) (c # cs))
      else map_option (\<lambda>(before, after). (c # before, after)) (find_sub sub cs))"

definition strip_code_fences :: "string \<Rightarrow> string" where
  "strip_code_fences s =
     (case find_sub fence s of
        None \<Rightarrow> s
      | Some (before, rest) \<Rightarrow>
          (let body = (if lower (take 4 rest) = ''json'' then drop 4 rest else rest)
           in case find_sub fence body of None \<Rightarrow> s | Some (group1, after) \<Rightarrow> group1))"

text \<open>\<^verbatim>\<open>s.find(c)\<close> and \<^verbatim>\<open>s.rfind(c)\<close>; \<open>None\<close> stands for \<^verbatim>\<open>-1\<close>.\<close>

fun py_find :: "char \<Rightarrow> string \<Rightarrow> nat option" where
  "py_find c [] = None"
| "py_find c (x # xs) = (if x = c then Some 0 else map_option Suc (py_find c xs))"

definition py_rfind :: "char \<Rightarrow> string \<Rightarrow> nat option" where
  "py_rfind c s = map_option (\<lambda>i. length s - 1 - i) (py_find c (rev s))"

text \<open>
  What \<^verbatim>\<open>json.loads\<close> returns, as far as the callers look at it: an object (with the
  keys of a scope) or any other JSON value.  \<^verbatim>\<open>json.loads\<close> itself is a parameter
  \<open>loads\<close> of the model; \<open>Inl\<close> is the exception it raises.
\<close>

datatype json = JObject scope | JOther

definition empty_dict :: scope where
  "empty_dict = \<lparr>activities = Absent, resourcing_plan = Absent, discount_percentage = No_Discount\<rparr>"

definition extract_json :: "(string \<Rightarrow> error + json) \<Rightarrow> string \<Rightarrow> error + json" where
  "extract_json loads s =
     (let raw = strip_code_fences s
      in case loads (strip raw) of
           Inr v \<Rightarrow> Inr v
         | Inl exc \<Rightarrow>
             (case (py_find (CHR ''{'') raw, py_rfind (CHR ''}'') raw) of
                (Some start, Some end') \<Rightarrow>
                  (if end' > start then
                     (case loads (take (end' + 1 - start) (drop start raw)) of
                        Inr v \<Rightarrow> Inr v
                      | Inl exc' \<Rightarrow> Inr (JObject empty_dict))
                   else Inr (JObject empty_dict))
              | _ \<Rightarrow> Inr (JObject empty_dict)))"

section \<open>Scope generation: the guards on the reply\<close>

text \<open>
  \<^verbatim>\<open>ollama_chat\<close> returns the stripped response, or the empty string when the request
  failed.  The language model is a sequence of replies; a call consumes the next one.
\<close>

datatype llm_reply = Failed | Response string

definition ollama_chat :: "(nat \<Rightarrow> llm_reply) \<Rightarrow> nat \<Rightarrow> string \<times> nat" where
  "ollama_chat llm n = ((case llm n of Failed \<Rightarrow> [] | Response r \<Rightarrow> strip r), n + 1)"

text \<open>\<^verbatim>\<open>act.get(key, '')\<close> followed by a string method: \<^verbatim>\<open>null\<close> has none.\<close>

definition field_text :: "jfield \<Rightarrow> error + string" where
  "field_text f = (case f of Absent \<Rightarrow> Inr [] | JNull \<Rightarrow> Inl AttributeError | JVal s \<Rightarrow> Inr s)"

text \<open>The test of the content guard on one activity; \<^verbatim>\<open>or\<close> stops at the first true
  operand.\<close>

definition is_garbage :: "activity \<Rightarrow> error + bool" where
  "is_garbage act =
     (case field_text (Activities act) of
        Inl exc \<Rightarrow> Inl exc
      | Inr name \<Rightarrow>
          if strip name = [] then Inr True
          else (case field_text (Description act) of
                  Inl exc \<Rightarrow> Inl exc
                | Inr desc \<Rightarrow>
                    if strip desc = [] then Inr True
                    else (case field_text (Owner act) of
                            Inl exc \<Rightarrow> Inl exc
                          | Inr owner \<Rightarrow> Inr (lower owner \<in> set [''unassigned'', '''']))))"

fun count_garbage :: "activity list \<Rightarrow> nat \<Rightarrow> error + nat" where
  "count_garbage [] empty_fields_count = Inr empty_fields_count"
| "count_garbage (act # acts) empty_fields_count =
     (case is_garbage act of
        Inl exc \<Rightarrow> Inl exc
      | Inr g \<Rightarrow> count_garbage acts (if g then empty_fields_count + 1 else empty_fields_count))"

text \<open>
  The thresholds \<^verbatim>\<open>count > n * 0.7\<close>, \<^verbatim>\<open>count > n * 0.5\<close> and \<^verbatim>\<open>count > n * 0.3\<close> compare an
  integer with a float product; \<open>share\<close> is the decimal of the literal.
\<close>

definition more_than_share :: "nat \<Rightarrow> rat \<Rightarrow> nat \<Rightarrow> bool" where
  "more_than_share k share n = (of_nat k > to_double (of_nat n * to_double share))"

text \<open>
  \<^verbatim>\<open>generate_project_scope\<close> from the call of the model on: the reply is checked, parsed,
  checked again and cleaned.  Every exception inside the \<^verbatim>\<open>try\<close> ends in the empty
  dictionary.  The steps after \<^verbatim>\<open>clean_scope\<close> (project metadata, the architecture
  diagram, the saved copy) do not change the activities or the plan and are left out.
  The result comes with the index of the next reply.
\<close>

definition check_and_clean ::
  "datetime \<Rightarrow> database option \<Rightarrow> project option \<Rightarrow> json \<Rightarrow> error + scope" where
  "check_and_clean today db proj raw =
     (case raw of
        JOther \<Rightarrow> Inl AttributeError
      | JObject sc \<Rightarrow>
          (case activities sc of
             JVal (a # as) \<Rightarrow>
               (case count_garbage (a # as) 0 of
                  Inl exc \<Rightarrow> Inl exc
                | Inr empty_fields_count \<Rightarrow>
                    if more_than_share empty_fields_count (7 / 10) (length (a # as))
                    then Inr empty_dict
                    else clean_scope today db proj sc)
           | _ \<Rightarrow> clean_scope today db proj sc))"

definition generate_project_scope ::
  "(string \<Rightarrow> error + json) \<Rightarrow> datetime \<Rightarrow> database option \<Rightarrow> project option \<Rightarrow>
     (nat \<Rightarrow> llm_reply) \<Rightarrow> nat \<Rightarrow> scope \<times> nat" where
  "generate_project_scope loads today db proj llm n =
     (case ollama_chat llm n of
        (raw_text, n') \<Rightarrow>
          if raw_text = [] \<or> length (strip raw_text) < 50 then (empty_dict, n')
          else (case extract_json loads raw_text of
                  Inl exc \<Rightarrow> (empty_dict, n')
                | Inr raw \<Rightarrow>
                    (case check_and_clean today db proj raw of
                       Inl exc \<Rightarrow> (empty_dict, n')
                     | Inr cleaned_scope \<Rightarrow> (cleaned_scope, n'))))"

section \<open>Regeneration from instructions\<close>

text \<open>\<^verbatim>\<open>len(d.get(key, []))\<close>\<close>

definition len_of :: "'a list jopt \<Rightarrow> error + nat" where
  "len_of f = (case f of Absent \<Rightarrow> Inr 0 | JNull \<Rightarrow> Inl TypeError | JVal xs \<Rightarrow> Inr (length xs))"

text \<open>The list under a key when \<^verbatim>\<open>d.get(key)\<close> is true, and the empty list otherwise.\<close>

definition truthy_list :: "'a list jopt \<Rightarrow> 'a list" where
  "truthy_list f = (case f of JVal xs \<Rightarrow> xs | _ \<Rightarrow> [])"

definition common_roles :: "string list" where
  "common_roles =
     [''project manager'', ''business analyst'', ''data architect'', ''data engineer'',
      ''backend developer'', ''frontend developer'', ''qa engineer'', ''devops engineer'',
      ''cloud architect'', ''data analyst'', ''ux designer'']"

text \<open>The counts of the validation; each generator raises on a \<^verbatim>\<open>null\<close> field.\<close>

fun count_where :: "(activity \<Rightarrow> error + bool) \<Rightarrow> activity list \<Rightarrow> error + nat" where
  "count_where test [] = Inr 0"
| "count_where test (act # acts) =
     (case test act of
        Inl exc \<Rightarrow> Inl exc
      | Inr b \<Rightarrow>
          (case count_where test acts of
             Inl exc \<Rightarrow> Inl exc
           | Inr k \<Rightarrow> Inr (if b then k + 1 else k)))"

definition owner_unassigned :: "activity \<Rightarrow> error + bool" where
  "owner_unassigned act =
     (case field_text (Owner act) of
        Inl exc \<Rightarrow> Inl exc
      | Inr owner \<Rightarrow> Inr (lower owner \<in> set [''unassigned'', '''']))"

definition description_empty :: "activity \<Rightarrow> error + bool" where
  "description_empty act =
     (case field_text (Description act) of
        Inl exc \<Rightarrow> Inl exc
      | Inr desc \<Rightarrow> Inr (strip desc = []))"

definition named_after_role :: "activity \<Rightarrow> error + bool" where
  "named_after_role act =
     (case field_text (Activities act) of
        Inl exc \<Rightarrow> Inl exc
      | Inr name \<Rightarrow> Inr (strip (lower name) \<in> set common_roles))"

text \<open>\<^verbatim>\<open>(act.get('Start Date'), act.get('End Date'))\<close>: an absent key and \<^verbatim>\<open>null\<close> both
  give \<^verbatim>\<open>None\<close>.\<close>

definition get_plain :: "jfield \<Rightarrow> string option" where
  "get_plain f = (case f of JVal s \<Rightarrow> Some s | _ \<Rightarrow> None)"

definition date_pair :: "activity \<Rightarrow> string option \<times> string option" where
  "date_pair act = (get_plain (Start_Date act), get_plain (End_Date act))"

definition activities_are_valid :: "activity list \<Rightarrow> error + bool" where
  "activities_are_valid acts =
     (if acts = [] then Inr True
      else
        (case count_where owner_unassigned acts of
           Inl exc \<Rightarrow> Inl exc
         | Inr unassigned_count \<Rightarrow>
             (case count_where description_empty acts of
                Inl exc \<Rightarrow> Inl exc
              | Inr empty_desc_count \<Rightarrow>
                  (case count_where named_after_role acts of
                     Inl exc \<Rightarrow> Inl exc
                   | Inr role_name_activities \<Rightarrow>
                       (let new_activity_count = length acts;
                            unique_date_pairs = length (remdups (map date_pair acts))
                        in Inr (\<not> (more_than_share unassigned_count (1 / 2) new_activity_count
                                 \<or> more_than_share empty_desc_count (1 / 2) new_activity_count
                                 \<or> more_than_share role_name_activities (3 / 10) new_activity_count
                                 \<or> (unique_date_pairs = 1 \<and> new_activity_count > 1))))))))"

definition is_removal_instruction :: "string \<Rightarrow> bool" where
  "is_removal_instruction instructions =
     (contains ''remove'' (lower instructions) \<or> contains ''delete'' (lower instructions))"

text \<open>The condition under which the draft's activities are put back.\<close>

definition must_restore :: "nat \<Rightarrow> nat \<Rightarrow> string \<Rightarrow> bool \<Rightarrow> bool" where
  "must_restore original_activity_count new_activity_count instructions valid =
     ((of_nat new_activity_count < to_double (of_nat original_activity_count * to_double (7 / 10))
         \<and> \<not> is_removal_instruction instructions)
      \<or> \<not> valid)"

text \<open>\<^verbatim>\<open>updated_scope["activities"] = draft.get("activities", [])\<close>, and the plan of the
  draft where the reply has none.\<close>

definition restore_from_draft :: "scope \<Rightarrow> scope \<Rightarrow> scope" where
  "restore_from_draft draft updated_scope =
     updated_scope\<lparr>activities := get_default (activities draft) [],
                   resourcing_plan :=
                     (if truthy_list (resourcing_plan updated_scope) = []
                      then get_default (resourcing_plan draft) []
                      else resourcing_plan updated_scope)\<rparr>"

text \<open>
  \<^verbatim>\<open>re.search\<close> is a parameter \<open>re_search\<close> of the model: it takes the pattern and the
  text and gives group 1 of the first match.  The patterns of the source are
  \<^item> \<open>Remove_Role\<close>: \<^verbatim>\<open>remove\s+([a-zA-Z\s]+?)(?:\s*(?:from|,|\.|\band\b|$))\<close>
  \<^item> \<open>Percent_Discount\<close>: \<^verbatim>\<open>(\d+)\s*%\s*discount\<close>
  \<^item> \<open>Discount_Percent\<close>: \<^verbatim>\<open>discount\s+(?:of\s+)?(\d+)\s*%\<close>
  \<^item> \<open>Apply_Percent\<close>: \<^verbatim>\<open>apply\s+(\d+)\s*%\<close>
  \<^item> \<open>Give_Percent\<close>: \<^verbatim>\<open>give\s+(\d+)\s*%\<close>
\<close>

datatype pattern = Remove_Role | Percent_Discount | Discount_Percent | Apply_Percent | Give_Percent

text \<open>The removal of a role after the fact: an activity owned by the role goes to its
  first resource, or to the project manager; the role leaves every resource list.\<close>

definition reassign_owner :: "string \<Rightarrow> activity \<Rightarrow> error + activity" where
  "reassign_owner role_to_remove act =
     (case field_text (Owner act) of
        Inl exc \<Rightarrow> Inl exc
      | Inr owner \<Rightarrow>
          if lower owner = role_to_remove \<or> contains role_to_remove (lower owner) then
            (let resources = get_or (Resources act) []
             in if strip resources \<noteq> [] then
                  (let parts = split_on (CHR '','') resources;
                       remaining_resources = filter (\<lambda>r. r \<noteq> []) (map strip (tl parts))
                   in Inr (act\<lparr>Owner := JVal (strip (hd parts)),
                               Resources := JVal (join_comma remaining_resources)\<rparr>))
                else Inr (act\<lparr>Owner := JVal ''Project Manager''\<rparr>))
          else Inr act)"

definition filter_resources :: "string \<Rightarrow> activity \<Rightarrow> activity" where
  "filter_resources role_to_remove act =
     (if get_or (Resources act) [] = [] then act
      else
        (let resources_list = split_roles (Resources act);
             filtered_resources =
               filter (\<lambda>r. \<not> contains role_to_remove (lower r) \<and> lower r \<noteq> role_to_remove)
                 resources_list
         in if length filtered_resources \<noteq> length resources_list
            then act\<lparr>Resources := JVal (join_comma filtered_resources)\<rparr> else act))"

fun remove_role :: "string \<Rightarrow> activity list \<Rightarrow> error + activity list" where
  "remove_role role_to_remove [] = Inr []"
| "remove_role role_to_remove (act # acts) =
     (case reassign_owner role_to_remove act of
        Inl exc \<Rightarrow> Inl exc
      | Inr act' \<Rightarrow>
          (case remove_role role_to_remove acts of
             Inl exc \<Rightarrow> Inl exc
           | Inr acts' \<Rightarrow> Inr (filter_resources role_to_remove act' # acts')))"

text \<open>
  With \<^verbatim>\<open>remove\<close> in the instructions the roles of the activities are logged first;
  \<^verbatim>\<open>role.lower()\<close> raises there for an owner that is \<^verbatim>\<open>null\<close>.
\<close>

definition postprocess_removal ::
  "(pattern \<Rightarrow> string \<Rightarrow> string option) \<Rightarrow> string \<Rightarrow> scope \<Rightarrow> error + scope" where
  "postprocess_removal re_search instructions updated_scope =
     (let acts = truthy_list (activities updated_scope)
      in if contains ''remove'' (lower instructions) \<and> acts \<noteq> [] then
           (if list_ex (\<lambda>act. Owner act = JNull) acts then Inl AttributeError
            else
              (case re_search Remove_Role (lower instructions) of
                 None \<Rightarrow> Inr updated_scope
               | Some group1 \<Rightarrow>
                   (case remove_role (strip group1) acts of
                      Inl exc \<Rightarrow> Inl exc
                    | Inr acts' \<Rightarrow> Inr (updated_scope\<lparr>activities := JVal acts'\<rparr>))))
         else Inr updated_scope)"

text \<open>The discount named in the instructions: the first of the four patterns that
  matches gives the percentage, which is stored unless the reply has one.\<close>

definition discount_patterns :: "pattern list" where
  "discount_patterns = [Percent_Discount, Discount_Percent, Apply_Percent, Give_Percent]"

text \<open>\<^verbatim>\<open>int(s)\<close> for a string of digits.\<close>

definition int_of_digits :: "string \<Rightarrow> error + nat" where
  "int_of_digits s =
     (if s \<noteq> [] \<and> list_all is_digit s
      then Inr (fold (\<lambda>c acc. 10 * acc + digit_val c) s 0) else Inl ValueError)"

definition discount_falsy :: "discount \<Rightarrow> bool" where
  "discount_falsy dp =
     (case dp of
        No_Discount \<Rightarrow> True
      | Discount_Number d \<Rightarrow> d = 0
      | Discount_Bool b \<Rightarrow> \<not> b
      | Discount_Other t \<Rightarrow> \<not> t)"

fun postprocess_discount ::
  "(pattern \<Rightarrow> string \<Rightarrow> string option) \<Rightarrow> pattern list \<Rightarrow> string \<Rightarrow> scope \<Rightarrow> error + scope" where
  "postprocess_discount re_search [] instructions updated_scope = Inr updated_scope"
| "postprocess_discount re_search (pat # pats) instructions updated_scope =
     (case re_search pat (lower instructions) of
        None \<Rightarrow> postprocess_discount re_search pats instructions updated_scope
      | Some group1 \<Rightarrow>
          (case int_of_digits group1 of
             Inl exc \<Rightarrow> Inl exc
           | Inr percentage \<Rightarrow>
               Inr (if discount_falsy (discount_percentage updated_scope)
                    then updated_scope\<lparr>discount_percentage := Discount_Number (of_nat percentage)\<rparr>
                    else updated_scope)))"

text \<open>The body of the \<^verbatim>\<open>try\<close>, from the parsed reply to the cleaned scope.\<close>

definition regenerate_try ::
  "(pattern \<Rightarrow> string \<Rightarrow> string option) \<Rightarrow> datetime \<Rightarrow> database option \<Rightarrow> project option \<Rightarrow>
     scope \<Rightarrow> string \<Rightarrow> json \<Rightarrow> error + scope" where
  "regenerate_try re_search today db proj draft instructions parsed =
     (case parsed of
        JOther \<Rightarrow> Inl AttributeError
      | JObject updated_scope \<Rightarrow>
          (case len_of (activities updated_scope) of
             Inl exc \<Rightarrow> Inl exc
           | Inr new_activity_count \<Rightarrow>
          (case len_of (resourcing_plan updated_scope) of
             Inl exc \<Rightarrow> Inl exc
           | Inr plan_count \<Rightarrow>
          (case len_of (activities draft) of
             Inl exc \<Rightarrow> Inl exc
           | Inr original_activity_count \<Rightarrow>
          (case activities_are_valid (truthy_list (activities updated_scope)) of
             Inl exc \<Rightarrow> Inl exc
           | Inr valid \<Rightarrow>
          (let restored =
                 (if must_restore original_activity_count new_activity_count instructions valid
                  then restore_from_draft draft updated_scope else updated_scope)
           in case postprocess_removal re_search instructions restored of
                Inl exc \<Rightarrow> Inl exc
              | Inr removed \<Rightarrow>
                  (case postprocess_discount re_search discount_patterns instructions removed of
                     Inl exc \<Rightarrow> Inl exc
                   | Inr discounted \<Rightarrow>
                       (let final =
                              (if truthy_list (activities discounted) = []
                               then restore_from_draft draft discounted else discounted)
                        in clean_scope today db proj final))))))))"

text \<open>
  \<^verbatim>\<open>regenerate_from_instructions\<close>: blank instructions clean the draft; otherwise the
  model is asked, and any exception in the \<^verbatim>\<open>try\<close> falls back on the cleaned draft.
  An exception of that last \<^verbatim>\<open>clean_scope\<close> leaves the function.  The update of the
  project and the saved copy are left out.
\<close>

definition regenerate_from_instructions ::
  "(string \<Rightarrow> error + json) \<Rightarrow> (pattern \<Rightarrow> string \<Rightarrow> string option) \<Rightarrow> datetime \<Rightarrow>
     database option \<Rightarrow> project option \<Rightarrow> scope \<Rightarrow> string \<Rightarrow> (nat \<Rightarrow> llm_reply) \<Rightarrow> nat \<Rightarrow>
     error + scope" where
  "regenerate_from_instructions loads re_search today db proj draft instructions llm n =
     (if strip instructions = [] then clean_scope today db proj draft
      else
        (case ollama_chat llm n of
           (raw_text, n') \<Rightarrow>
             (case (case extract_json loads raw_text of
                      Inl exc \<Rightarrow> Inl exc
                    | Inr parsed \<Rightarrow>
                        regenerate_try re_search today db proj draft instructions parsed) of
                Inl exc \<Rightarrow> clean_scope today db proj draft
              | Inr cleaned \<Rightarrow> Inr cleaned)))"

section \<open>Example data\<close>

text \<open>
  A database with six companies: company 1 has a rate card, company 2 is Sigmoid and has
  one, company 3 has none, the query for the card of company 4 fails, the card of
  company 5 holds the float \<^verbatim>\<open>1000.03\<close>, and the card of company 6 has a row for the
  name \<^verbatim>\<open>Unassigned\<close>.
\<close>

definition demo_db :: database where
  "demo_db =
     \<lparr>rate_cards =
        (\<lambda>c. if c = 1 then Inr [(''Consultant'', 1500), (''QA Engineer'', 1900)]
             else if c = 2 then Inr [(''Backend Developer'', 9999)]
             else if c = 4 then Inl DatabaseError
             else if c = 5 then Inr [(''Backend Developer'', to_double (100003 / 100))]
             else if c = 6 then Inr [(''Unassigned'', 500)]
             else Inr []),
      sigmoid_company = Inr (Some 2)\<rparr>"

section \<open>Auxiliary notions\<close>

text \<open>A role name as the splitting of a resource list produces it: not empty, no white
  space at its ends, no comma.\<close>

definition clean_role :: "string \<Rightarrow> bool" where
  "clean_role d = (d \<noteq> [] \<and> \<not> is_space (hd d) \<and> \<not> is_space (last d) \<and> CHR '','' \<notin> set d)"

text \<open>The entries the first loop appends, as one list (the first failure stops the loop).\<close>

fun dated_list :: "datetime \<Rightarrow> int \<Rightarrow> activity list \<Rightarrow> error + dated list" where
  "dated_list today idx [] = Inr []"
| "dated_list today idx (a # as) =
     (case dated_of today idx a of
        Inl err \<Rightarrow> Inl err
      | Inr d \<Rightarrow>
          (case dated_list today (idx + 1) as of
             Inl err \<Rightarrow> Inl err
           | Inr ds \<Rightarrow> Inr (d # ds)))"

text \<open>The roles of an entry, read back from its owner and its resource text.\<close>

definition d_roles :: "dated \<Rightarrow> string list" where
  "d_roles d = d_Owner d # split_roles (JVal (d_Resources d))"

text \<open>What holds of every entry the first loop appends.\<close>

definition good_dated :: "dated \<Rightarrow> bool" where
  "good_dated d =
     (valid_date (d_Start d) \<and> valid_date (d_End d) \<and> d_Start d \<le> d_End d
      \<and> (\<exists>s30. add_days (d_Start d) 30 = Inr s30)
      \<and> (\<exists>m. month_effort (d_Start d) (d_End d) = Inr m)
      \<and> d_Owner d \<noteq> []
      \<and> (\<exists>deps. d_Resources d = join_comma deps
             \<and> (\<forall>x\<in>set deps. clean_role x \<and> lower x \<noteq> lower (d_Owner d)))
      \<and> strip (d_Activities d) = d_Activities d
      \<and> strip (d_Description d) = d_Description d
      \<and> d_Effort d =
          py_round2 (to_double (of_int (max 1 (days_between (d_End d) (d_Start d))) / 30)))"

text \<open>An entry whose dates are read back from their printed form: they are printed with
  four digits from the year 1000 on.\<close>

definition stable_dated :: "dated \<Rightarrow> bool" where
  "stable_dated d = (good_dated d \<and> 1000 \<le> fst (d_Start d))"

text \<open>The two activities of the end-to-end scenario.\<close>

definition act_A :: activity where
  "act_A = \<lparr>ID = 1, Activities = JVal ''A'', Description = JVal ''first'',
             Owner = JVal ''Backend Developer'', Resources = JVal ''QA Engineer'',
             Start_Date = JVal ''2025-01-01'', End_Date = JVal ''2025-01-31'',
             Effort_Months = 1\<rparr>"

definition act_B :: activity where
  "act_B = \<lparr>ID = 2, Activities = JVal ''B'', Description = JVal ''second'',
             Owner = JVal ''QA Engineer'', Resources = JVal '''',
             Start_Date = JVal ''2025-01-20'', End_Date = JVal ''2025-02-20'',
             Effort_Months = 1\<rparr>"

text \<open>The two activities as the normalizer returns them.\<close>

definition scenario_activities :: "activity list" where
  "scenario_activities =
     [\<lparr>ID = 1, Activities = JVal ''A'', Description = JVal ''first'',
        Owner = JVal ''Backend Developer'', Resources = JVal ''QA Engineer'',
        Start_Date = JVal ''2025-01-01'', End_Date = JVal ''2025-01-31'', Effort_Months = 1\<rparr>,
      \<lparr>ID = 2, Activities = JVal ''B'', Description = JVal ''second'',
        Owner = JVal ''QA Engineer'', Resources = JVal '''',
        Start_Date = JVal ''2025-01-20'', End_Date = JVal ''2025-02-20'',
        Effort_Months = to_double (103 / 100)\<rparr>]"

text \<open>Every row of day counts has one cell per relative month, and no cell is negative.\<close>

definition usage_ok :: "nat \<Rightarrow> int usage \<Rightarrow> bool" where
  "usage_ok K u = (\<forall>(r, row)\<in>set u. length row = K \<and> (\<forall>x\<in>set row. 0 \<le> x))"

text \<open>The scenario as a scope, and the roles of a plan with their rates.\<close>

definition scenario_scope :: "discount \<Rightarrow> scope" where
  "scenario_scope dp =
     \<lparr>activities = JVal [act_A, act_B], resourcing_plan = Absent, discount_percentage = dp\<rparr>"

definition plan_of :: "error + scope \<Rightarrow> plan_entry list" where
  "plan_of res =
     (case res of
        Inl err \<Rightarrow> []
      | Inr out \<Rightarrow> (case resourcing_plan out of JVal plan \<Rightarrow> plan | _ \<Rightarrow> []))"

text \<open>An activity without an owner, as a scope, and the activity as the normalizer
  returns it.\<close>

definition act_U :: activity where
  "act_U = \<lparr>ID = 7, Activities = JVal ''Kickoff'', Description = JVal ''Start of the project'',
             Owner = Absent, Resources = Absent,
             Start_Date = JVal ''2025-01-01'', End_Date = JVal ''2025-01-31'',
             Effort_Months = 0\<rparr>"

definition unassigned_scope :: scope where
  "unassigned_scope =
     \<lparr>activities = JVal [act_U], resourcing_plan = Absent, discount_percentage = No_Discount\<rparr>"

definition unassigned_activity :: activity where
  "unassigned_activity =
     \<lparr>ID = 1, Activities = JVal ''Kickoff'', Description = JVal ''Start of the project'',
      Owner = JVal ''Unassigned'', Resources = JVal '''',
      Start_Date = JVal ''2025-01-01'', End_Date = JVal ''2025-01-31'', Effort_Months = 1\<rparr>"

text \<open>The activities of a result.\<close>

definition activities_of :: "error + scope \<Rightarrow> activity list" where
  "activities_of res =
     (case res of
        Inl err \<Rightarrow> []
      | Inr out \<Rightarrow> (case activities out of JVal acts \<Rightarrow> acts | _ \<Rightarrow> []))"

section \<open>Properties\<close>

subsection \<open>Floats\<close>

lemma powi_bitlen:
  assumes "0 < (p::int)"
  shows "(2::rat) powi (bitlen p - 1) \<le> of_int p" "of_int p < (2::rat) powi (bitlen p)"
proof -
  from bitlen_bounds[OF assms] have a: "2 ^ nat (bitlen p - 1) \<le> p" and b: "p < 2 ^ nat (bitlen p)"
    by auto
  have ge: "1 \<le> bitlen p" using assms bitlen_eq_zero_iff[of p] bitlen_nonneg[of p] by linarith
  have "(2::rat) powi (bitlen p - 1) = 2 ^ nat (bitlen p - 1)"
    using ge by (simp add: power_int_def)
  also have "\<dots> = of_int (2 ^ nat (bitlen p - 1))" by simp
  also have "\<dots> \<le> of_int p" using a by (simp only: of_int_le_iff)
  finally show "(2::rat) powi (bitlen p - 1) \<le> of_int p" .
  have "(of_int p :: rat) < of_int (2 ^ nat (bitlen p))" using b by (simp only: of_int_less_iff)
  also have "\<dots> = 2 powi (bitlen p)" using ge by (simp add: power_int_def)
  finally show "of_int p < (2::rat) powi (bitlen p)" .
qed

lemma binade_bounds:
  assumes "0 < x"
  shows "2 powi (binade x) \<le> x" "x < 2 powi (binade x + 1)"
proof -
  obtain p q where pq: "quotient_of x = (p, q)" by (cases "quotient_of x")
  have q: "0 < q" using quotient_of_denom_pos[OF pq] .
  have x: "x = of_int p / of_int q" using quotient_of_div[OF pq] .
  have p: "0 < p" using assms q x by (simp add: zero_less_divide_iff)
  define d where "d = bitlen p - bitlen q"
  have up: "x < 2 powi (d + 1)"
  proof -
    have "x * of_int q = of_int p" using x q by simp
    also have "\<dots> < 2 powi (bitlen p)" using powi_bitlen(2)[OF p] .
    also have "\<dots> = 2 powi (d + 1) * 2 powi (bitlen q - 1)"
      by (simp add: d_def flip: power_int_add)
    also have "\<dots> \<le> 2 powi (d + 1) * of_int q"
      using powi_bitlen(1)[OF q] by (intro mult_left_mono) auto
    finally show ?thesis using q by simp
  qed
  have lo: "2 powi (d - 1) < x"
  proof -
    have "(2::rat) powi (d - 1) * of_int q < 2 powi (d - 1) * 2 powi (bitlen q)"
      using powi_bitlen(2)[OF q] by (intro mult_strict_left_mono) auto
    also have "\<dots> = 2 powi (bitlen p - 1)" by (simp add: d_def flip: power_int_add)
    also have "\<dots> \<le> of_int p" using powi_bitlen(1)[OF p] .
    also have "\<dots> = x * of_int q" using x q by simp
    finally show ?thesis using q by simp
  qed
  have b: "binade x = (if 2 powi d \<le> x then d else d - 1)"
    by (simp add: binade_def pq d_def Let_def)
  show "2 powi (binade x) \<le> x" using lo b by (auto simp: less_imp_le)
  show "x < 2 powi (binade x + 1)" using up b by (auto simp: not_le)
qed

lemma binade_unique:
  assumes "0 < x" "2 powi a \<le> x" "x < 2 powi (a + 1)"
  shows "binade x = a"
proof -
  have "(2::rat) powi a < 2 powi (binade x + 1)"
    using assms(2) binade_bounds(2)[OF assms(1)] by (rule le_less_trans)
  hence 1: "a < binade x + 1"
    using power_int_increasing[of "binade x + 1" a "2::rat"] by (cases "a < binade x + 1") auto
  have "(2::rat) powi (binade x) < 2 powi (a + 1)"
    using binade_bounds(1)[OF assms(1)] assms(3) by (rule le_less_trans)
  hence 2: "binade x < a + 1"
    using power_int_increasing[of "a + 1" "binade x" "2::rat"] by (cases "binade x < a + 1") auto
  from 1 2 show ?thesis by simp
qed

lemma to_double_up:
  assumes "2 ^ 52 \<le> \<bar>x\<bar> * 2 ^ k" "\<bar>x\<bar> * 2 ^ k < 2 ^ 53"
  shows "to_double x = of_int (round_half_even (x * 2 ^ k)) / 2 ^ k"
proof -
  have x0: "0 < \<bar>x\<bar>" using assms(1) by (cases "x = 0") auto
  have "binade \<bar>x\<bar> = 52 - int k"
  proof (rule binade_unique[OF x0])
    have "(2::rat) powi (52 - int k) = 2 ^ 52 / 2 ^ k" by (simp add: power_int_diff)
    also have "\<dots> \<le> \<bar>x\<bar>" using assms(1) by (simp add: divide_le_eq)
    finally show "2 powi (52 - int k) \<le> \<bar>x\<bar>" .
    have "(2::rat) powi (52 - int k + 1) = 2 ^ 53 / 2 ^ k"
      by (simp add: power_int_diff power_int_add)
    moreover have "\<bar>x\<bar> < 2 ^ 53 / 2 ^ k" using assms(2) by (simp add: less_divide_eq)
    ultimately show "\<bar>x\<bar> < 2 powi (52 - int k + 1)" by simp
  qed
  hence e: "binade \<bar>x\<bar> - 52 = - int k" by simp
  have "to_double x = of_int (round_half_even (x / 2 powi (- int k))) * 2 powi (- int k)"
    using x0 by (simp add: to_double_def e Let_def)
  thus ?thesis by (simp add: power_int_minus divide_inverse)
qed

lemma to_double_down:
  assumes "2 ^ 52 \<le> \<bar>x\<bar> / 2 ^ k" "\<bar>x\<bar> / 2 ^ k < 2 ^ 53"
  shows "to_double x = of_int (round_half_even (x / 2 ^ k)) * 2 ^ k"
proof -
  have x0: "0 < \<bar>x\<bar>" using assms(1) by (cases "x = 0") auto
  have "binade \<bar>x\<bar> = 52 + int k"
  proof (rule binade_unique[OF x0])
    have "(2::rat) powi (52 + int k) = 2 ^ 52 * 2 ^ k" by (simp add: power_int_add)
    also have "\<dots> \<le> \<bar>x\<bar>" using assms(1) by (simp add: le_divide_eq)
    finally show "2 powi (52 + int k) \<le> \<bar>x\<bar>" .
    have "(2::rat) powi (52 + int k + 1) = 2 ^ 53 * 2 ^ k"
      by (simp add: power_int_add)
    moreover have "\<bar>x\<bar> < 2 ^ 53 * 2 ^ k" using assms(2) by (simp add: divide_less_eq)
    ultimately show "\<bar>x\<bar> < 2 powi (52 + int k + 1)" by simp
  qed
  hence e: "binade \<bar>x\<bar> - 52 = int k" by simp
  have "to_double x = of_int (round_half_even (x / 2 powi (int k))) * 2 powi (int k)"
    using x0 by (simp add: to_double_def e Let_def)
  thus ?thesis by simp
qed

lemma round_half_even_near: "\<bar>of_int (round_half_even y) - y\<bar> \<le> 1 / 2"
  unfolding round_half_even_def Let_def by (auto simp: abs_if) linarith+

lemma to_double_error:
  assumes "0 < x"
  shows "\<bar>to_double x - x\<bar> \<le> x / 2 ^ 53"
proof -
  define e where "e = binade \<bar>x\<bar> - 52"
  define s :: rat where "s = 2 powi e"
  have s: "0 < s" by (simp add: s_def)
  have bx: "binade \<bar>x\<bar> = binade x" using assms by simp
  have "2 powi (binade x) \<le> x" using binade_bounds(1)[OF assms] .
  moreover have "(2::rat) powi (binade x) = 2 ^ 52 * s"
    by (simp add: s_def e_def bx power_int_diff)
  ultimately have lo: "2 ^ 52 * s \<le> x" by simp
  have td: "to_double x = of_int (round_half_even (x / s)) * s"
    using assms by (simp add: to_double_def e_def s_def Let_def)
  have "\<bar>to_double x - x\<bar> = \<bar>of_int (round_half_even (x / s)) - x / s\<bar> * s"
    using s by (simp add: td abs_mult_pos field_simps)
  also have "\<dots> \<le> 1 / 2 * s" using round_half_even_near[of "x / s"] s
    by (intro mult_right_mono) auto
  also have "\<dots> \<le> x / 2 ^ 53" using lo by simp
  finally show ?thesis .
qed


lemma round_half_even_frac:
  assumes "b > 0"
  shows "round_half_even (of_int a / of_int b) =
    (let q = a div b; r = a mod b
     in if 2 * r < b then q else if 2 * r > b then q + 1 else if even q then q else q + 1)"
proof -
  have f: "\<lfloor>(of_int a / of_int b :: rat)\<rfloor> = a div b" by (simp add: floor_divide_of_int_eq)
  have "(of_int a :: rat) = of_int (a div b) * of_int b + of_int (a mod b)"
    by (metis div_mult_mod_eq of_int_add of_int_mult)
  then have r: "(of_int a / of_int b :: rat) - of_int (a div b) = of_int (a mod b) / of_int b"
    using assms by (simp add: field_simps)
  have lt: "(of_int (a mod b) / of_int b :: rat) < 1 / 2 \<longleftrightarrow> 2 * (a mod b) < b"
    using assms by (simp add: field_simps) (metis of_int_less_iff of_int_mult of_int_numeral mult.commute)
  have gt: "(of_int (a mod b) / of_int b :: rat) > 1 / 2 \<longleftrightarrow> 2 * (a mod b) > b"
    using assms by (simp add: field_simps) (metis of_int_less_iff of_int_mult of_int_numeral mult.commute)
  show ?thesis
    unfolding round_half_even_def Let_def f r lt gt by simp
qed

lemma round_half_even_numeral_frac:
  "round_half_even (numeral a / numeral b) =
    (let q = numeral a div numeral b; r = numeral a mod (numeral b :: int)
     in if 2 * r < numeral b then q else if 2 * r > numeral b then q + 1
        else if even q then q else q + 1)"
  using round_half_even_frac[of "numeral b" "numeral a"] by simp

lemma round_half_even_numeral: "round_half_even (numeral a) = numeral a"
  by (simp add: round_half_even_def)

text \<open>The values of \<^const>\<open>to_double\<close> and \<^const>\<open>py_round2\<close> the examples need.\<close>

lemma to_double_one: "to_double 1 = 1"
  by (subst to_double_up[of _ 52]) (simp_all add: round_half_even_def)

lemma py_round2_one: "py_round2 1 = 1"
  by (simp add: py_round2_def round_half_even_numeral to_double_one)

lemma effort_31_days: "py_round2 (to_double (31 / 30)) = to_double (103 / 100)"
proof -
  have e: "to_double (31 / 30) = 4653719614949513 / 4503599627370496"
    by (subst to_double_up[of _ 52]) (simp_all add: round_half_even_numeral_frac)
  show ?thesis unfolding py_round2_def e by (simp add: round_half_even_numeral_frac)
qed

subsection \<open>Dates\<close>

lemma digit_table:
  assumes "k < 10"
  shows "is_digit (''0123456789'' ! k) \<and> digit_val (''0123456789'' ! k) = k"
proof -
  from assms have "k = 0 \<or> k = 1 \<or> k = 2 \<or> k = 3 \<or> k = 4 \<or> k = 5 \<or> k = 6 \<or> k = 7 \<or> k = 8 \<or> k = 9"
    by presburger
  then show ?thesis
    by (elim disjE) (simp_all add: is_digit_def digit_val_def)
qed

lemma digit_char_props:
  "is_digit (digit_char n)" "digit_val (digit_char n) = n mod 10"
  using digit_table[of "n mod 10"] by (simp_all add: digit_char_def)

lemma digit_char_not_sep: "digit_char n \<noteq> CHR ''-''" "digit_char n \<noteq> CHR '' ''"
  using digit_char_props(1)[of n] by (auto simp: is_digit_def)
lemma div10_decade:
  assumes "10 * q \<le> d" "d < 10 * q + 10"
  shows "d div 10 = q" "d mod 10 = d - 10 * (q::nat)"
proof -
  show "d div 10 = q" using assms by (intro div_nat_eqI) simp_all
  then show "d mod 10 = d - 10 * q" by (simp add: modulo_nat_def)
qed

lemma re_month_strftime:
  assumes "1 \<le> m" "m \<le> 12"
  shows "re_month (digit_char (m div 10) # digit_char m # rest) = Some (m, rest)"
proof (cases "m < 10")
  case True
  then have "m div 10 = 0" "m mod 10 = m" by simp_all
  with assms show ?thesis by (simp add: digit_char_props)
next
  case False
  with assms have "m div 10 = 1" "m mod 10 = m - 10 * 1"
    by (intro div10_decade; simp)+
  with False assms show ?thesis by (simp add: digit_char_props)
qed

lemma re_day_strftime:
  assumes "1 \<le> d" "d \<le> 31"
  shows "re_day [digit_char (d div 10), digit_char d] = Some (d, [])"
proof -
  consider "d < 10" | "10 \<le> d" "d < 20" | "20 \<le> d" "d < 30" | "30 \<le> d" by linarith
  then show ?thesis
  proof cases
    case 1
    then have "d div 10 = 0" "d mod 10 = d" by simp_all
    with assms show ?thesis by (simp add: digit_char_props)
  next
    case 2
    then have "d div 10 = 1" "d mod 10 = d - 10 * 1" by (intro div10_decade; simp)+
    with 2 show ?thesis by (simp add: digit_char_props)
  next
    case 3
    then have "d div 10 = 2" "d mod 10 = d - 10 * 2" by (intro div10_decade; simp)+
    with 3 show ?thesis by (simp add: digit_char_props)
  next
    case 4
    with assms have "d div 10 = 3" "d mod 10 = d - 10 * 3" by (intro div10_decade; simp)+
    with 4 assms show ?thesis by (simp add: digit_char_props)
  qed
qed

lemma days_in_month_le: "days_in_month y m \<le> 31"
  by (simp add: days_in_month_def)
lemma year_digits:
  assumes "y \<le> 9999"
  shows "1000 * ((y div 1000) mod 10) + 100 * ((y div 100) mod 10) + 10 * ((y div 10) mod 10)
           + y mod 10 = (y::nat)"
proof -
  have a: "y = 10 * (y div 10) + y mod 10" by simp
  have "(y div 10) div 10 = y div 100" by (simp add: div_mult2_eq[symmetric])
  then have b: "y div 10 = 10 * (y div 100) + (y div 10) mod 10"
    using div_mult_mod_eq[of "y div 10" 10] by simp
  have "(y div 100) div 10 = y div 1000" by (simp add: div_mult2_eq[symmetric])
  then have c: "y div 100 = 10 * (y div 1000) + (y div 100) mod 10"
    using div_mult_mod_eq[of "y div 100" 10] by simp
  from assms have "y div 1000 < 10" by simp
  then have d: "(y div 1000) mod 10 = y div 1000" by simp
  show ?thesis using a b c d by linarith
qed
lemma strptime_strftime:
  assumes "valid_date dt" "1000 \<le> fst dt"
  shows "strptime (strftime dt) = Some dt"
proof -
  obtain y m d where dt: "dt = (y, m, d)" by (cases dt) auto
  from assms dt have v: "1 \<le> y" "y \<le> 9999" "1 \<le> m" "m \<le> 12" "1 \<le> d" "d \<le> days_in_month y m"
    by (simp_all add: valid_date_def)
  from assms(2) dt have y4: "\<not> y < 10" "\<not> y < 100" "\<not> y < 1000" by simp_all
  from v(6) days_in_month_le[of y m] have d31: "d \<le> 31" by linarith
  have vd: "valid_date (y, m, d)" using assms dt by simp
  show ?thesis
    by (simp add: dt strptime_def strftime_def year_text_def y4 digit_char_props digit_char_not_sep
        re_month_strftime[OF v(3,4)] re_day_strftime[OF v(5) d31] year_digits[OF v(2)] vd
        del: re_month.simps re_day.simps)
qed

lemma strptime_valid: "strptime s = Some dt \<Longrightarrow> valid_date dt"
  by (auto simp: strptime_def Let_def split: list.splits if_splits option.splits prod.splits)

lemma strftime_nonempty: "strftime dt \<noteq> []"
  by (cases dt) (simp add: strftime_def)

lemma parse_date_safe_strftime:
  "valid_date dt \<Longrightarrow> 1000 \<le> fst dt \<Longrightarrow> parse_date_safe (JVal (strftime dt)) fb = dt"
  by (simp add: parse_date_safe_def strftime_nonempty strptime_strftime)

lemma parse_date_safe_valid:
  "valid_date fb \<Longrightarrow> valid_date (parse_date_safe f fb)"
  by (auto simp: parse_date_safe_def dest: strptime_valid split: jopt.splits option.splits)

lemma next_day_greater: "dt < next_day dt"
  by (cases dt) (auto simp: next_day_def)

lemma days_after_ge: "dt \<le> days_after k dt"
proof (induction k arbitrary: dt)
  case 0
  then show ?case by simp
next
  case (Suc k)
  have "dt \<le> next_day dt" using next_day_greater[of dt] by simp
  also have "\<dots> \<le> days_after k (next_day dt)" by (rule Suc.IH)
  finally show ?case by simp
qed

lemma next_day_valid:
  assumes "valid_date dt" "fst (next_day dt) \<le> 9999"
  shows "valid_date (next_day dt)"
proof -
  obtain y m d where dt: "dt = (y, m, d)" by (cases dt) auto
  have "1 \<le> days_in_month y (m + 1)" by (simp add: days_in_month_def)
  moreover have "1 \<le> days_in_month (y + 1) 1" by (simp add: days_in_month_def)
  ultimately show ?thesis
    using assms by (auto simp: dt valid_date_def next_day_def)
qed

lemma fst_mono_date: "(a::datetime) \<le> b \<Longrightarrow> fst a \<le> fst b"
  by (cases a; cases b) auto

lemma days_after_valid:
  assumes "valid_date dt" "fst (days_after k dt) \<le> 9999"
  shows "valid_date (days_after k dt)"
  using assms
proof (induction k arbitrary: dt)
  case 0
  then show ?case by simp
next
  case (Suc k)
  have "fst (next_day dt) \<le> fst (days_after k (next_day dt))"
    by (rule fst_mono_date[OF days_after_ge])
  with Suc.prems have "fst (next_day dt) \<le> 9999" by simp
  with Suc.prems have "valid_date (next_day dt)" by (simp add: next_day_valid)
  with Suc show ?case by simp
qed

lemma add_days_valid: "valid_date dt \<Longrightarrow> add_days dt k = Inr r \<Longrightarrow> valid_date r"
  by (auto simp: add_days_def Let_def days_after_valid split: if_splits)

lemma add_days_ge: "add_days dt k = Inr r \<Longrightarrow> dt \<le> r"
  by (auto simp: add_days_def Let_def days_after_ge split: if_splits)

subsection \<open>Strings\<close>

lemma last_dropWhile_nonempty: "dropWhile P xs \<noteq> [] \<Longrightarrow> last (dropWhile P xs) = last xs"
  by (induction xs) (auto split: if_splits)

lemma strip_Nil: "strip [] = []"
  by (simp add: strip_def)

lemma strip_ends:
  assumes "strip s \<noteq> []"
  shows "\<not> is_space (hd (strip s))" "\<not> is_space (last (strip s))"
proof -
  let ?t = "dropWhile is_space s"
  let ?u = "dropWhile is_space (rev ?t)"
  from assms have u: "?u \<noteq> []" by (simp add: strip_def)
  then have "rev ?t \<noteq> []" by (metis dropWhile.simps(1))
  then have t: "?t \<noteq> []" by simp
  from u have "\<not> is_space (hd ?u)" by (rule hd_dropWhile)
  then show "\<not> is_space (last (strip s))" using u by (simp add: strip_def last_rev)
  from u have "last ?u = last (rev ?t)" by (rule last_dropWhile_nonempty)
  also have "\<dots> = hd ?t" using t by (simp add: last_rev)
  finally have "hd (strip s) = hd ?t" using u by (simp add: strip_def hd_rev)
  moreover from t have "\<not> is_space (hd ?t)" by (rule hd_dropWhile)
  ultimately show "\<not> is_space (hd (strip s))" by simp
qed

lemma strip_fixed:
  assumes "d \<noteq> []" "\<not> is_space (hd d)" "\<not> is_space (last d)"
  shows "strip d = d"
proof -
  from assms have "dropWhile is_space d = d" by (cases d) auto
  moreover from assms have "dropWhile is_space (rev d) = rev d"
    by (cases "rev d") (auto simp: last_rev[symmetric] simp del: last_rev)
  ultimately show ?thesis by (simp add: strip_def)
qed

lemma strip_idem: "strip (strip s) = strip s"
proof (cases "strip s = []")
  case True
  then show ?thesis by (simp add: strip_Nil)
next
  case False
  then show ?thesis by (intro strip_fixed strip_ends) simp_all
qed

lemma strip_space_prefix:
  assumes "\<forall>c\<in>set pre. is_space c"
  shows "strip (pre @ d) = strip d"
  using assms by (simp add: strip_def dropWhile_append2)

lemma set_strip: "set (strip s) \<subseteq> set s"
  by (auto simp: strip_def dest!: set_dropWhileD)

lemma split_acc_no_sep: "sep \<notin> set s \<Longrightarrow> split_acc sep acc s = [rev acc @ s]"
  by (induction s arbitrary: acc) auto

lemma split_acc_sep:
  "sep \<notin> set a \<Longrightarrow> split_acc sep acc (a @ sep # b) = (rev acc @ a) # split_acc sep [] b"
  by (induction a arbitrary: acc) auto

lemma split_acc_pieces:
  "sep \<notin> set acc \<Longrightarrow> \<forall>p\<in>set (split_acc sep acc s). sep \<notin> set p"
proof (induction s arbitrary: acc)
  case Nil
  then show ?case by simp
next
  case (Cons a s)
  show ?case
  proof (cases "a = sep")
    case True
    with Cons.prems Cons.IH[of "[]"] show ?thesis by simp
  next
    case False
    with Cons.prems Cons.IH[of "a # acc"] show ?thesis by simp
  qed
qed

lemma split_on_pieces: "p \<in> set (split_on sep s) \<Longrightarrow> sep \<notin> set p"
  unfolding split_on_def using split_acc_pieces[of sep "[]" s] by simp

lemma is_space_blank: "is_space CHR '' ''" "\<not> is_space CHR '',''"
  by (simp_all add: is_space_def)

lemma clean_role_strip: "clean_role d \<Longrightarrow> strip d = d"
  by (simp add: clean_role_def strip_fixed)

lemma split_join_prefix:
  assumes "ds \<noteq> []" "\<forall>d\<in>set ds. clean_role d" "\<forall>c\<in>set pre. is_space c" "CHR '','' \<notin> set pre"
  shows "filter (\<lambda>d. d \<noteq> []) (map strip (split_on (CHR '','') (pre @ join_comma ds))) = ds"
  using assms
proof (induction ds arbitrary: pre rule: join_comma.induct)
  case 1
  then show ?case by simp
next
  case (2 x)
  then have x: "clean_role x" by simp
  then have "CHR '','' \<notin> set (pre @ x)" using 2 by (simp add: clean_role_def)
  then have "split_on (CHR '','') (pre @ x) = [pre @ x]"
    unfolding split_on_def by (simp add: split_acc_no_sep del: set_append)
  moreover have "strip (pre @ x) = x"
    using 2 x by (simp add: strip_space_prefix clean_role_strip)
  moreover have "x \<noteq> []" using x by (simp add: clean_role_def)
  ultimately show ?case by simp
next
  case (3 x y ys)
  then have x: "clean_role x" by simp
  then have nc: "CHR '','' \<notin> set (pre @ x)" using 3 by (simp add: clean_role_def)
  have "split_on (CHR '','') (pre @ join_comma (x # y # ys))
          = (pre @ x) # split_on (CHR '','') ([CHR '' ''] @ join_comma (y # ys))"
    unfolding split_on_def using split_acc_sep[OF nc, of "[]" "CHR '' '' # join_comma (y # ys)"]
    by simp
  moreover have "strip (pre @ x) = x"
    using 3 x by (simp add: strip_space_prefix clean_role_strip)
  moreover have "x \<noteq> []" using x by (simp add: clean_role_def)
  moreover have "filter (\<lambda>d. d \<noteq> []) (map strip (split_on (CHR '','') ([CHR '' ''] @ join_comma (y # ys)))) = y # ys"
    using 3 by (intro "3.IH") (simp_all add: is_space_blank)
  ultimately show ?case by simp
qed

lemma split_roles_join:
  assumes "\<forall>d\<in>set ds. clean_role d"
  shows "split_roles (JVal (join_comma ds)) = ds"
proof (cases "ds = []")
  case True
  then show ?thesis by (simp add: split_roles_def get_or_def split_on_def strip_Nil)
next
  case False
  have "get_or (JVal (join_comma ds)) [] = join_comma ds" by (simp add: get_or_def)
  then show ?thesis
    using split_join_prefix[OF False assms, of "[]"] by (simp add: split_roles_def)
qed

lemma split_roles_clean: "r \<in> set (split_roles f) \<Longrightarrow> clean_role r"
proof -
  assume "r \<in> set (split_roles f)"
  then obtain p where p: "p \<in> set (split_on (CHR '','') (get_or f []))" "r = strip p" "r \<noteq> []"
    by (auto simp: split_roles_def)
  from p(1) have "CHR '','' \<notin> set p" by (rule split_on_pieces)
  with set_strip[of p] p(2) have "CHR '','' \<notin> set r" by auto
  with p(2,3) strip_ends[of p] show ?thesis by (simp add: clean_role_def)
qed

subsection \<open>The first loop\<close>

lemma owner_of_nonempty: "owner_of a \<noteq> []"
  by (simp add: owner_of_def get_or_def split: jopt.splits)

lemma get_or_nonempty: "s \<noteq> [] \<Longrightarrow> get_or (JVal s) d = s"
  by (simp add: get_or_def)

lemma raw_deps_clean: "x \<in> set (raw_deps a) \<Longrightarrow> clean_role x \<and> lower x \<noteq> lower (owner_of a)"
  by (auto simp: raw_deps_def dest: split_roles_clean)

lemma activity_dates_props:
  assumes "activity_dates today a = Inr (s, e)" "valid_date today"
  shows "valid_date s" "valid_date e" "s \<le> e" "\<exists>s30. add_days s 30 = Inr s30"
proof -
  let ?s = "parse_date_safe (Start_Date a) today"
  from assms(1) obtain s30 where s30: "add_days ?s 30 = Inr s30"
    by (auto simp: activity_dates_def Let_def split: sum.splits)
  with assms(1) have s: "s = ?s"
    and e: "e = (if parse_date_safe (End_Date a) s30 < ?s then s30 else parse_date_safe (End_Date a) s30)"
    by (auto simp: activity_dates_def Let_def)
  show vs: "valid_date s" using s assms(2) by (simp add: parse_date_safe_valid)
  have v30: "valid_date s30" using add_days_valid[OF _ s30] vs s by simp
  show "valid_date e" using e v30 by (simp add: parse_date_safe_valid)
  show "s \<le> e" using e s add_days_ge[OF s30] by auto
  show "\<exists>s30. add_days s 30 = Inr s30" using s s30 by blast
qed

lemma dated_of_good:
  assumes "dated_of today idx a = Inr d" "valid_date today"
  shows "good_dated d"
proof -
  from assms(1) obtain s e m where
    ad: "activity_dates today a = Inr (s, e)" and me: "month_effort s e = Inr m"
    by (auto simp: dated_of_def split: sum.splits prod.splits)
  with assms(1) have d: "d = \<lparr>d_ID = idx,
                        d_Activities = safe_str (Activities a),
                        d_Description = safe_str (Description a),
                        d_Owner = owner_of a,
                        d_Resources = join_comma (raw_deps a),
                        d_Start = s,
                        d_End = e,
                        d_Effort = py_round2 (to_double (of_int (max 1 (days_between e s)) / 30))\<rparr>"
    by (simp add: dated_of_def Let_def)
  have "strip (safe_str f) = safe_str f" for f
    by (simp add: safe_str_def strip_idem strip_Nil split: jopt.splits)
  moreover have "\<exists>deps. join_comma (raw_deps a) = join_comma deps
             \<and> (\<forall>x\<in>set deps. clean_role x \<and> lower x \<noteq> lower (owner_of a))"
    using raw_deps_clean by blast
  ultimately show ?thesis
    using activity_dates_props[OF ad assms(2)] me
    by (simp add: good_dated_def d owner_of_nonempty)
qed

lemma dated_of_roles:
  assumes "dated_of today idx a = Inr d"
  shows "d_roles d = roles_of a"
proof -
  from assms have "d_Owner d = owner_of a" "d_Resources d = join_comma (raw_deps a)"
    by (auto simp: dated_of_def Let_def split: sum.splits prod.splits)
  moreover have "split_roles (JVal (join_comma (raw_deps a))) = raw_deps a"
    by (rule split_roles_join) (simp add: raw_deps_clean)
  ultimately show ?thesis by (simp add: d_roles_def roles_of_def)
qed

lemma finish_activity_fields:
  assumes "good_dated d"
  shows "owner_of (finish_activity i d) = d_Owner d"
    and "raw_deps (finish_activity i d) = split_roles (JVal (d_Resources d))"
    and "join_comma (raw_deps (finish_activity i d)) = d_Resources d"
    and "roles_of (finish_activity i d) = d_roles d"
    and "involved_roles_of (finish_activity i d) = d_roles d"
proof -
  from assms obtain deps where deps: "d_Resources d = join_comma deps"
    "\<forall>x\<in>set deps. clean_role x \<and> lower x \<noteq> lower (d_Owner d)"
    by (auto simp: good_dated_def)
  from assms have ow: "d_Owner d \<noteq> []" by (simp add: good_dated_def)
  show o: "owner_of (finish_activity i d) = d_Owner d"
    using ow by (simp add: owner_of_def finish_activity_def get_or_nonempty)
  have sr: "split_roles (JVal (d_Resources d)) = deps"
    using deps by (simp add: split_roles_join)
  have "filter (\<lambda>r. lower r \<noteq> lower (d_Owner d)) deps = deps"
    using deps(2) by (simp add: filter_id_conv)
  then show r: "raw_deps (finish_activity i d) = split_roles (JVal (d_Resources d))"
    using o sr by (simp add: raw_deps_def finish_activity_def)
  show "join_comma (raw_deps (finish_activity i d)) = d_Resources d"
    using r sr deps(1) by simp
  show "roles_of (finish_activity i d) = d_roles d"
    using o r by (simp add: roles_of_def d_roles_def)
  show "involved_roles_of (finish_activity i d) = d_roles d"
    using ow by (simp add: involved_roles_of_def d_roles_def finish_activity_def get_or_nonempty)
qed

lemma finish_activity_dates:
  assumes sd: "stable_dated d"
  shows "activity_dates today (finish_activity i d) = Inr (d_Start d, d_End d)"
proof -
  from sd have assms: "good_dated d" and y: "1000 \<le> fst (d_Start d)"
    by (simp_all add: stable_dated_def)
  from assms obtain s30 where s30: "add_days (d_Start d) 30 = Inr s30"
    by (auto simp: good_dated_def)
  from assms have v: "valid_date (d_Start d)" "valid_date (d_End d)" "d_Start d \<le> d_End d"
    by (simp_all add: good_dated_def)
  from v(3) have "\<not> d_End d < d_Start d" by simp
  moreover have "1000 \<le> fst (d_End d)" using y fst_mono_date[OF v(3)] by simp
  ultimately show ?thesis
    using v s30 y
    by (simp add: activity_dates_def finish_activity_def parse_date_safe_strftime Let_def)
qed

lemma dated_of_finish:
  assumes sd: "stable_dated d"
  shows "dated_of today i (finish_activity j d) = Inr (d\<lparr>d_ID := i\<rparr>)"
proof -
  from sd have assms: "good_dated d" by (simp add: stable_dated_def)
  from assms obtain m where m: "month_effort (d_Start d) (d_End d) = Inr m"
    by (auto simp: good_dated_def)
  from assms have t: "strip (d_Activities d) = d_Activities d"
    "strip (d_Description d) = d_Description d"
    "d_Effort d =
       py_round2 (to_double (of_int (max 1 (days_between (d_End d) (d_Start d))) / 30))"
    by (simp_all add: good_dated_def)
  have "safe_str (Activities (finish_activity j d)) = d_Activities d"
    "safe_str (Description (finish_activity j d)) = d_Description d"
    using t by (simp_all add: safe_str_def finish_activity_def)
  then show ?thesis
    using finish_activity_fields[OF assms] finish_activity_dates[OF sd] m t(3)
    by (simp add: dated_of_def Let_def)
qed

lemma process_activities_dated_list:
  "process_activities today idx acts st =
     (case dated_list today idx acts of
        Inl err \<Rightarrow> Inl err
      | Inr ds \<Rightarrow>
          Inr \<lparr>st_activities = st_activities st @ ds,
               st_start_dates = st_start_dates st @ map d_Start ds,
               st_end_dates = st_end_dates st @ map d_End ds,
               st_role_order = fold add_role (concat (map roles_of acts)) (st_role_order st)\<rparr>)"
proof (induction acts arbitrary: idx st)
  case Nil
  then show ?case by simp
next
  case (Cons a acts)
  show ?case
  proof (cases "dated_of today idx a")
    case (Inl err)
    then show ?thesis by (simp add: process_activity_def)
  next
    case (Inr d)
    then show ?thesis
      by (simp add: process_activity_def Cons.IH split: sum.splits)
  qed
qed

lemma dated_list_props:
  assumes "dated_list today idx acts = Inr ds" "valid_date today"
  shows "length ds = length acts" "\<forall>d\<in>set ds. good_dated d" "map d_roles ds = map roles_of acts"
  using assms(1)
proof (induction acts arbitrary: idx ds)
  case Nil
  { case 1 then show ?case by simp }
  { case 2 then show ?case by simp }
  { case 3 then show ?case by simp }
next
  case (Cons a acts)
  { case 1 with Cons.IH(1) show ?case by (auto split: sum.splits) }
  { case 2 with Cons.IH(2) dated_of_good[OF _ assms(2)] show ?case
      by (fastforce split: sum.splits) }
  { case 3 with Cons.IH(3) dated_of_roles show ?case by (fastforce split: sum.splits) }
qed

subsection \<open>The normalizer through the entries of the first loop\<close>

lemma normalize_alt:
  "normalize today acts =
     (case dated_list today 1 acts of
        Inl err \<Rightarrow> Inl err
      | Inr ds \<Rightarrow>
          (let sorted_acts = renumber 1 (sort_key d_Start ds);
               min_start = min_or (map d_Start ds) today;
               max_end = max_or (map d_End ds) min_start;
               total_months = total_months_of (days_between max_end min_start);
               usage0 = map (\<lambda>r. (r, replicate total_months 0))
                          (fold add_role (concat (map roles_of acts)) [])
           in case usage_loop today min_start total_months sorted_acts usage0 of
                Inl err \<Rightarrow> Inl err
              | Inr days \<Rightarrow>
                  Inr \<lparr>n_activities = sorted_acts,
                       n_role_order = fold add_role (concat (map roles_of acts)) [],
                       n_total_months = total_months,
                       n_days = days,
                       n_role_month_usage = quantize_usage days\<rparr>))"
  by (simp add: normalize_def process_activities_dated_list Let_def split: sum.splits)

lemma finish_activity_id: "finish_activity j (d\<lparr>d_ID := i\<rparr>) = finish_activity j d"
  by (simp add: finish_activity_def)

lemma d_roles_id: "d_roles (d\<lparr>d_ID := i\<rparr>) = d_roles d"
  by (simp add: d_roles_def)

lemma dated_list_renumber:
  assumes "\<forall>d\<in>set S. stable_dated d"
  shows "\<exists>S'. dated_list today i (renumber j S) = Inr S'
           \<and> map d_Start S' = map d_Start S \<and> map d_End S' = map d_End S
           \<and> (\<forall>k. renumber k S' = renumber k S)
           \<and> map roles_of (renumber j S) = map d_roles S"
  using assms
proof (induction S arbitrary: i j)
  case Nil
  then show ?case by simp
next
  case (Cons d S)
  then have g: "stable_dated d" by simp
  from Cons obtain S' where S': "dated_list today (i + 1) (renumber (j + 1) S) = Inr S'"
    "map d_Start S' = map d_Start S" "map d_End S' = map d_End S"
    "\<forall>k. renumber k S' = renumber k S" "map roles_of (renumber (j + 1) S) = map d_roles S"
    by (metis list.set_intros(2))
  have "dated_list today i (renumber j (d # S)) = Inr (d\<lparr>d_ID := i\<rparr> # S')"
    using S'(1) dated_of_finish[OF g] by simp
  moreover have "roles_of (finish_activity j d) = d_roles d"
    using finish_activity_fields(4)[of d] g by (simp add: stable_dated_def)
  ultimately show ?case
    using S'(2-5) by (simp add: finish_activity_id)
qed

lemma min_or_Min: "min_or xs d = (if xs = [] then d else Min (set xs))"
proof (cases xs)
  case Nil
  then show ?thesis by (simp add: min_or_def)
next
  case (Cons a list)
  have "fold min list a = Min (set (a # list))" by (simp only: Min.set_eq_fold)
  then show ?thesis using Cons by (simp add: min_or_def)
qed

lemma max_or_Max: "max_or xs d = (if xs = [] then d else Max (set xs))"
proof (cases xs)
  case Nil
  then show ?thesis by (simp add: max_or_def)
next
  case (Cons a list)
  have "fold max list a = Max (set (a # list))" by (simp only: Max.set_eq_fold)
  then show ?thesis using Cons by (simp add: max_or_def)
qed

lemma set_fold_add_role: "set (fold add_role rs order) = set order \<union> set rs"
  by (induction rs arbitrary: order) (auto simp: add_role_def)

lemma renumber_set:
  "act \<in> set (renumber j S) \<Longrightarrow> \<exists>i d. d \<in> set S \<and> act = finish_activity i d"
  by (induction S arbitrary: j) fastforce+

lemma length_renumber: "length (renumber j S) = length S"
  by (induction S arbitrary: j) simp_all

lemma renumber_ids: "map ID (renumber j S) = map (\<lambda>k. j + int k) [0..<length S]"
proof (induction S arbitrary: j)
  case Nil
  then show ?case by simp
next
  case (Cons d S)
  have "map (\<lambda>k. j + int k) [0..<Suc (length S)] = j # map (\<lambda>k. j + 1 + int k) [0..<length S]"
    by (simp add: upt_conv_Cons map_Suc_upt[symmetric] del: upt_Suc)
  then show ?case using Cons by (simp add: finish_activity_def)
qed

subsection \<open>The day counts as a map\<close>

lemma map_of_replace:
  "r \<in> fst ` set u \<Longrightarrow>
     map_of (map (\<lambda>(k, v). if k = r then (k, row) else (k, v)) u) = (map_of u)(r \<mapsto> row)"
proof (induction u)
  case Nil
  then show ?case by simp
next
  case (Cons p u)
  obtain k v where p: "p = (k, v)" by (cases p)
  show ?case
  proof (cases "r \<in> fst ` set u")
    case True
    with Cons p show ?thesis by (auto simp: fun_upd_twist)
  next
    case False
    then have "map (\<lambda>(k, v). if k = r then (k, row) else (k, v)) u = u"
      by (induction u) auto
    with Cons.prems False p show ?thesis by auto
  qed
qed

lemma map_of_update_usage: "map_of (update_usage r row u) = (map_of u)(r \<mapsto> row)"
proof (cases "r \<in> fst ` set u")
  case True
  then show ?thesis by (simp add: update_usage_def map_of_replace)
next
  case False
  then have "map_of u r = None" by (simp add: map_of_eq_None_iff)
  then have "map_of (u @ [(r, row)]) = (map_of u)(r \<mapsto> row)"
    by (auto simp: map_add_def fun_eq_iff split: option.splits)
  with False show ?thesis by (simp add: update_usage_def)
qed

lemma map_of_add_usage:
  "map_of (add_usage K m_idx od r u) =
     (map_of u)(r \<mapsto> (case map_of u r of
                        None \<Rightarrow> (replicate K 0)[m_idx := replicate K 0 ! m_idx + od]
                      | Some row \<Rightarrow> row[m_idx := row ! m_idx + od]))"
  unfolding add_usage_def Let_def map_of_update_usage
  by (cases "map_of u r") simp_all

lemma add_usage_cong:
  assumes "map_of u1 = map_of u2"
  shows "map_of (add_usage K m_idx od r u1) = map_of (add_usage K m_idx od r u2)"
  unfolding map_of_add_usage assms ..

lemma fold_add_usage_cong:
  "map_of u1 = map_of u2 \<Longrightarrow>
     map_of (fold (add_usage K m_idx od) rs u1) = map_of (fold (add_usage K m_idx od) rs u2)"
proof (induction rs arbitrary: u1 u2)
  case Nil
  then show ?case by simp
next
  case (Cons r rs)
  from add_usage_cong[OF Cons.prems] have
    "map_of (add_usage K m_idx od r u1) = map_of (add_usage K m_idx od r u2)" .
  from Cons.IH[OF this] show ?case by simp
qed

lemma usage_months_cong:
  "map_of u1 = map_of u2 \<Longrightarrow>
     rel_sum (=) (\<lambda>a b. map_of a = map_of b)
       (usage_months min_start K s e roles idxs u1) (usage_months min_start K s e roles idxs u2)"
proof (induction idxs arbitrary: u1 u2)
  case Nil
  then show ?case by simp
next
  case (Cons m idxs)
  show ?case
  proof (cases "add_days min_start (m * 30)")
    case (Inl err)
    then show ?thesis by simp
  next
    case rs: (Inr rel_start)
    show ?thesis
    proof (cases "add_days min_start ((m + 1) * 30)")
      case (Inl err)
      with rs show ?thesis by simp
    next
      case re: (Inr rel_end)
      let ?od = "overlap_days s e rel_start rel_end"
      have "map_of (if ?od > 0 then fold (add_usage K m ?od) roles u1 else u1)
          = map_of (if ?od > 0 then fold (add_usage K m ?od) roles u2 else u2)"
        using Cons.prems fold_add_usage_cong[OF Cons.prems, of K m ?od roles] by simp
      from Cons.IH[OF this] rs re show ?thesis by (simp add: Let_def)
    qed
  qed
qed

lemma usage_loop_cong:
  "map_of u1 = map_of u2 \<Longrightarrow>
     rel_sum (=) (\<lambda>a b. map_of a = map_of b)
       (usage_loop today min_start K acts u1) (usage_loop today min_start K acts u2)"
proof (induction acts arbitrary: u1 u2)
  case Nil
  then show ?case by simp
next
  case (Cons act acts)
  have r: "rel_sum (=) (\<lambda>a b. map_of a = map_of b)
          (usage_activity today min_start K act u1) (usage_activity today min_start K act u2)"
  proof (cases "activity_dates today act")
    case (Inl err)
    then show ?thesis by (simp add: usage_activity_def)
  next
    case (Inr se)
    then show ?thesis
      using usage_months_cong[OF Cons.prems] by (cases se) (simp add: usage_activity_def)
  qed
  show ?case
  proof (cases "usage_activity today min_start K act u1")
    case (Inl err)
    with r have "usage_activity today min_start K act u2 = Inl err"
      by (cases "usage_activity today min_start K act u2") simp_all
    with Inl show ?thesis by simp
  next
    case (Inr a)
    with r obtain b where b: "usage_activity today min_start K act u2 = Inr b" "map_of a = map_of b"
      by (cases "usage_activity today min_start K act u2") simp_all
    from Cons.IH[OF b(2)] Inr b(1) show ?thesis by simp
  qed
qed

lemma usage_loop_today:
  "\<forall>act\<in>set acts. activity_dates t act = activity_dates t' act \<Longrightarrow>
     usage_loop t min_start K acts u = usage_loop t' min_start K acts u"
  by (induction acts arbitrary: u) (simp_all add: usage_activity_def split: sum.splits)

lemma map_of_usage0:
  "map_of (map (\<lambda>r. (r, z)) order) = (\<lambda>r. if r \<in> set order then Some z else None)"
  by (induction order) auto

lemma map_of_quantize_usage:
  "map_of (quantize_usage u) = map_option (map quantize) \<circ> map_of u"
  unfolding quantize_usage_def by (rule map_of_map)

subsection \<open>A second pass over normalized activities\<close>

lemma days_between_self: "days_between d d = 0"
  by (simp add: days_between_def)

lemma dated_list_starts:
  "dated_list today idx acts = Inr ds \<Longrightarrow>
     map d_Start ds = map (\<lambda>a. parse_date_safe (Start_Date a) today) acts"
proof (induction acts arbitrary: idx ds)
  case Nil
  then show ?case by simp
next
  case (Cons a acts)
  from Cons.prems obtain d ds' where d: "dated_of today idx a = Inr d"
    "dated_list today (idx + 1) acts = Inr ds'" "ds = d # ds'"
    by (auto split: sum.splits)
  from d(1) have "d_Start d = parse_date_safe (Start_Date a) today"
    by (auto simp: dated_of_def activity_dates_def Let_def split: sum.splits prod.splits)
  with Cons.IH[OF d(2)] d(3) show ?case by simp
qed

lemma normalize_idem:
  assumes "normalize today acts = Inr n" "valid_date today"
    and years: "\<forall>a\<in>set acts. 1000 \<le> fst (parse_date_safe (Start_Date a) today)"
  shows "\<exists>n'. normalize today' (n_activities n) = Inr n'
           \<and> n_activities n' = n_activities n
           \<and> n_total_months n' = n_total_months n
           \<and> map_of (n_days n') = map_of (n_days n)
           \<and> map_of (n_role_month_usage n') = map_of (n_role_month_usage n)"
proof -
  from assms(1) obtain ds where ds: "dated_list today 1 acts = Inr ds"
    by (auto simp: normalize_alt split: sum.splits)
  define S where "S = sort_key d_Start ds"
  define A where "A = renumber 1 S"
  define ms where "ms = min_or (map d_Start ds) today"
  define me where "me = max_or (map d_End ds) ms"
  define K where "K = total_months_of (days_between me ms)"
  define ro where "ro = fold add_role (concat (map roles_of acts)) []"
  define u0 where "u0 = map (\<lambda>r. (r, replicate K (0::int))) ro"
  from assms(1) ds obtain days where days: "usage_loop today ms K A u0 = Inr days"
    and n: "n = \<lparr>n_activities = A, n_role_order = ro, n_total_months = K, n_days = days,
                  n_role_month_usage = quantize_usage days\<rparr>"
    by (auto simp: normalize_alt Let_def S_def A_def ms_def me_def K_def ro_def u0_def
        split: sum.splits)
  note props = dated_list_props[OF ds assms(2)]
  have "\<forall>s\<in>set (map d_Start ds). 1000 \<le> fst s"
    unfolding dated_list_starts[OF ds] using years by simp
  then have goodS: "\<forall>d\<in>set S. stable_dated d"
    using props(2) by (simp add: S_def stable_dated_def)
  from dated_list_renumber[OF goodS, of today' 1 1] obtain S' where
    S': "dated_list today' 1 A = Inr S'" "map d_Start S' = map d_Start S"
    "map d_End S' = map d_End S" "\<forall>k. renumber k S' = renumber k S"
    "map roles_of A = map d_roles S"
    unfolding A_def by blast
  have "sorted (map d_Start S')" unfolding S'(2) S_def by (rule sorted_sort_key)
  then have sortS': "sort_key d_Start S' = S'" by (rule sort_key_id_if_sorted)
  have ren: "renumber 1 (sort_key d_Start S') = A" using sortS' S'(4) by (simp add: A_def)
  define ms' where "ms' = min_or (map d_Start S') today'"
  define me' where "me' = max_or (map d_End S') ms'"
  define K' where "K' = total_months_of (days_between me' ms')"
  define ro' where "ro' = fold add_role (concat (map roles_of A)) []"
  define u0' where "u0' = map (\<lambda>r. (r, replicate K' (0::int))) ro'"
  have norm': "normalize today' A =
      (case usage_loop today' ms' K' A u0' of
         Inl err \<Rightarrow> Inl err
       | Inr days' \<Rightarrow>
           Inr \<lparr>n_activities = A, n_role_order = ro', n_total_months = K', n_days = days',
                n_role_month_usage = quantize_usage days'\<rparr>)"
    unfolding u0'_def ro'_def K'_def me'_def ms'_def
    by (simp add: normalize_alt S'(1) ren Let_def)
  have lenS: "length S = length ds" by (simp add: S_def)
  have lenS': "length S' = length S" using S'(2) by (rule map_eq_imp_length_eq)
  have sets: "set (map d_Start S) = set (map d_Start ds)" "set (map d_End S) = set (map d_End ds)"
    by (simp_all add: S_def)
  have "set ro' = set (concat (map d_roles S))"
    by (simp add: ro'_def set_fold_add_role S'(5))
  also have "\<dots> = set (concat (map d_roles ds))" by (simp add: S_def)
  also have "\<dots> = set ro" by (simp add: ro_def set_fold_add_role props(3))
  finally have ro_eq: "set ro' = set ro" .
  have Keq: "K' = K"
  proof (cases "ds = []")
    case True
    then have "S' = []" using lenS lenS' by simp
    with True show ?thesis
      by (simp add: K'_def K_def me'_def me_def ms'_def ms_def min_or_def max_or_def
          days_between_self)
  next
    case False
    then have ne: "S \<noteq> []" "S' \<noteq> []" using lenS lenS' by auto
    have "ms' = ms"
      using False ne sets(1) unfolding ms'_def ms_def S'(2) min_or_Min by simp
    moreover have "me' = me"
      using False ne sets(2) unfolding me'_def me_def S'(3) max_or_Max by simp
    ultimately show ?thesis by (simp add: K'_def K_def)
  qed
  have u0_eq: "map_of u0' = map_of u0"
    by (simp add: u0'_def u0_def map_of_usage0 ro_eq Keq)
  have loop': "\<exists>days'. usage_loop today' ms' K' A u0' = Inr days' \<and> map_of days' = map_of days"
  proof (cases "ds = []")
    case True
    then have "A = []" using lenS by (simp add: A_def)
    with days u0_eq show ?thesis by simp
  next
    case False
    then have ne: "S \<noteq> []" "S' \<noteq> []" using lenS lenS' by auto
    have mseq: "ms' = ms"
      using False ne sets(1) unfolding ms'_def ms_def S'(2) min_or_Min by simp
    have "\<forall>act\<in>set A. activity_dates today' act = activity_dates today act"
    proof
      fix act assume "act \<in> set A"
      then obtain i d where "d \<in> set S" "act = finish_activity i d"
        unfolding A_def by (blast dest: renumber_set)
      with goodS show "activity_dates today' act = activity_dates today act"
        by (simp add: finish_activity_dates)
    qed
    then have "usage_loop today' ms K A u0' = usage_loop today ms K A u0'"
      by (rule usage_loop_today)
    moreover have "rel_sum (=) (\<lambda>a b. map_of a = map_of b)
        (usage_loop today ms K A u0') (usage_loop today ms K A u0)"
      by (rule usage_loop_cong[OF u0_eq])
    ultimately show ?thesis
      using days mseq Keq by (cases "usage_loop today ms K A u0'") simp_all
  qed
  then obtain days' where d': "usage_loop today' ms' K' A u0' = Inr days'"
    "map_of days' = map_of days" by blast
  show ?thesis
    using d' Keq by (simp add: n norm' map_of_quantize_usage)
qed

subsection \<open>The calendar walk returns for every end before the year 9999\<close>

lemma month_effort_loop_ok:
  "fst e < 9999 \<Longrightarrow> \<exists>m. month_effort_loop s e cur acc = Inr m"
proof (induction s e cur acc rule: month_effort_loop.induct)
  case (1 s e cur month_eff)
  show ?case
  proof (cases "cur \<le> e")
    case False
    then show ?thesis by (subst month_effort_loop.simps) simp
  next
    case True
    obtain year month day where cur: "cur = (year, month, day)" by (cases cur)
    from True have "fst cur \<le> fst e" by (rule fst_mono_date)
    with "1.prems" cur have y: "\<not> year + 1 > 9999" by simp
    define acc' where "acc' = month_eff((year, month) \<mapsto>
        py_round2 (to_double
          (of_int (int (if month = fst (snd e) then snd (snd e) else days_in_month year month)
                     - int (if month = fst (snd s) then day else 1) + 1) / 30)))"
    show ?thesis
    proof (cases "month \<ge> 12")
      case m: True
      have "\<exists>m. month_effort_loop s e (year + 1, 1, 1) acc' = Inr m"
        unfolding acc'_def
        by (rule "1.IH"(1)[OF True cur[symmetric] refl refl refl refl refl refl m y "1.prems"])
      then show ?thesis
        using True cur m y
        by (subst month_effort_loop.simps) (simp add: Let_def acc'_def)
    next
      case m: False
      have "\<exists>m. month_effort_loop s e (year, month + 1, 1) acc' = Inr m"
        unfolding acc'_def
        by (rule "1.IH"(2)[OF True cur[symmetric] refl refl refl refl refl refl m "1.prems"])
      then show ?thesis
        using True cur m
        by (subst month_effort_loop.simps) (simp add: Let_def acc'_def)
    qed
  qed
qed

lemma month_effort_ok: "fst e < 9999 \<Longrightarrow> \<exists>m. month_effort s e = Inr m"
  unfolding month_effort_def by (rule month_effort_loop_ok)

subsection \<open>Evaluation\<close>

lemma days_after_numeral:
  "days_after (numeral k) dt = days_after (pred_numeral k) (next_day dt)"
  by (simp add: numeral_eq_Suc)

lemmas date_eval = strptime_def is_digit_def digit_val_def valid_date_def days_in_month_def
  is_leap_def next_day_def add_days_def days_after_numeral parse_date_safe_def

lemmas string_eval = split_roles_def split_on_def strip_def is_space_def get_or_def lower_def
  lower_char_def safe_str_def

lemma month_effort_case:
  "fst e < 9999 \<Longrightarrow> (case month_effort s e of Inl err \<Rightarrow> Inl err | Inr m \<Rightarrow> f) = f"
  using month_effort_ok[of e s] by auto

lemma ex_dates_A: "activity_dates today act_A = Inr ((2025, 1, 1), (2025, 1, 31))"
  by (simp add: activity_dates_def act_A_def date_eval)

lemma ex_dates_B: "activity_dates today act_B = Inr ((2025, 1, 20), (2025, 2, 20))"
  by (simp add: activity_dates_def act_B_def date_eval)

lemma days_before_month_eval:
  "days_before_month y 1 = 0"
  "days_before_month y (Suc 0) = 0"
  "days_before_month y 2 = 31"
  "days_before_month y 3 = (if is_leap y then 60 else 59)"
  "days_before_month y 4 = (if is_leap y then 91 else 90)"
  "days_before_month y 5 = (if is_leap y then 121 else 120)"
  "days_before_month y 6 = (if is_leap y then 152 else 151)"
  "days_before_month y 7 = (if is_leap y then 182 else 181)"
  "days_before_month y 8 = (if is_leap y then 213 else 212)"
  "days_before_month y 9 = (if is_leap y then 244 else 243)"
  "days_before_month y 10 = (if is_leap y then 274 else 273)"
  "days_before_month y 11 = (if is_leap y then 305 else 304)"
  "days_before_month y 12 = (if is_leap y then 335 else 334)"
  by (simp_all add: days_before_month_def days_in_month_def upt_rec)

lemmas ordinal_eval = days_between_def toordinal_def days_before_year_def days_before_month_eval
  is_leap_def

lemma round_half_even_small: "round_half_even 0 = 0" "round_half_even 1 = 1"
  by (simp_all add: round_half_even_def)

lemmas round_eval = round_half_even_numeral_frac round_half_even_numeral round_half_even_small


lemma ex_dated_A:
  "dated_of today idx act_A =
     Inr \<lparr>d_ID = idx, d_Activities = ''A'', d_Description = ''first'',
          d_Owner = ''Backend Developer'', d_Resources = ''QA Engineer'',
          d_Start = (2025, 1, 1), d_End = (2025, 1, 31), d_Effort = 1\<rparr>"
proof -
  have "raw_deps act_A = [''QA Engineer'']"
    by (simp add: raw_deps_def owner_of_def act_A_def string_eval)
  moreover have "owner_of act_A = ''Backend Developer''"
    by (simp add: owner_of_def act_A_def get_or_def)
  moreover have "days_between (2025, 1, 31) (2025, 1, 1) = 30"
    by (simp add: ordinal_eval)
  moreover have "py_round2 (to_double (30 / 30)) = 1" by (simp add: to_double_one py_round2_one)
  ultimately show ?thesis
    by (simp add: dated_of_def ex_dates_A month_effort_case)
       (simp add: act_A_def string_eval)
qed

lemma ex_dated_B:
  "dated_of today idx act_B =
     Inr \<lparr>d_ID = idx, d_Activities = ''B'', d_Description = ''second'',
          d_Owner = ''QA Engineer'', d_Resources = '''',
          d_Start = (2025, 1, 20), d_End = (2025, 2, 20), d_Effort = to_double (103 / 100)\<rparr>"
proof -
  have "raw_deps act_B = []"
    by (simp add: raw_deps_def owner_of_def act_B_def string_eval)
  moreover have "owner_of act_B = ''QA Engineer''"
    by (simp add: owner_of_def act_B_def get_or_def)
  moreover have "days_between (2025, 2, 20) (2025, 1, 20) = 31"
    by (simp add: ordinal_eval)
  moreover have "py_round2 (to_double (31 / 30)) = to_double (103 / 100)" by (rule effort_31_days)
  ultimately show ?thesis
    by (simp add: dated_of_def ex_dates_B month_effort_case)
       (simp add: act_B_def string_eval)
qed

lemma ceil_div_30: "- (- d div 30) = (d + 29) div (30 :: int)"
proof -
  define q where "q = (- d) div 30"
  define r where "r = (- d) mod 30"
  have "- d = 30 * q + r" by (simp add: q_def r_def)
  then have e: "d + 29 = 30 * (- q) + (29 - r)" by simp
  have "0 \<le> r" "r < 30" by (simp_all add: r_def)
  then have "0 \<le> 29 - r" "29 - r < 30" by simp_all
  with e have "(d + 29) div 30 = - q" by (rule int_div_pos_eq)
  then show ?thesis by (simp add: q_def)
qed

lemma total_months_of_div: "total_months_of days = nat (max 1 ((days + 29) div 30))"
proof -
  have "\<lceil>of_int days / (30 :: rat)\<rceil> = - (- days div 30)"
    using ceiling_divide_eq_div[of days 30, where ?'a = rat] by simp
  then show ?thesis by (simp only: total_months_of_def ceil_div_30)
qed

lemmas usage_eval = usage_activity_def involved_roles_of_def overlap_days_def add_usage_def
  update_usage_def Let_def

lemma upt_two: "[0..<2] = [0, Suc 0]"
  by (simp add: upt_rec)

lemma ex_sorted:
  "renumber 1 (sort_key d_Start
     [\<lparr>d_ID = 1, d_Activities = ''A'', d_Description = ''first'',
          d_Owner = ''Backend Developer'', d_Resources = ''QA Engineer'',
          d_Start = (2025, 1, 1), d_End = (2025, 1, 31), d_Effort = 1\<rparr>,
      \<lparr>d_ID = 2, d_Activities = ''B'', d_Description = ''second'',
          d_Owner = ''QA Engineer'', d_Resources = '''',
          d_Start = (2025, 1, 20), d_End = (2025, 2, 20), d_Effort = to_double (103 / 100)\<rparr>])
   = scenario_activities"
  by (simp add: scenario_activities_def finish_activity_def strftime_def year_text_def
      digit_char_def)

lemma ex_window_1: "add_days (2025, 1, 1) 30 = Inr (2025, 1, 31)"
  by (simp add: date_eval)

lemma ex_window_2: "add_days (2025, 1, 1) 60 = Inr (2025, 3, 2)"
  by (simp add: date_eval)

lemma ex_usage_A:
  "usage_months (2025, 1, 1) 2 (2025, 1, 1) (2025, 1, 31) [''Backend Developer'', ''QA Engineer'']
      [0, Suc 0] [(''Backend Developer'', [0, 0]), (''QA Engineer'', [0, 0])]
   = Inr [(''Backend Developer'', [31, 1]), (''QA Engineer'', [31, 1])]"
proof -
  have w0: "add_days (2025, 1, 1) 0 = Inr (2025, 1, 1)" by (simp add: add_days_def)
  have d: "days_between (2025, 1, 31) (2025, 1, 1) = 30"
    "days_between (2025, 1, 31) (2025, 1, 31) = 0"
    by (simp_all add: ordinal_eval)
  show ?thesis
    by (simp add: w0 ex_window_1 ex_window_2 overlap_days_def d add_usage_def update_usage_def
        del: One_nat_def)
qed

lemma ex_usage_B:
  "usage_months (2025, 1, 1) 2 (2025, 1, 20) (2025, 2, 20) [''QA Engineer'']
      [0, Suc 0] [(''Backend Developer'', [31, 1]), (''QA Engineer'', [31, 1])]
   = Inr [(''Backend Developer'', [31, 1]), (''QA Engineer'', [43, 22])]"
proof -
  have w0: "add_days (2025, 1, 1) 0 = Inr (2025, 1, 1)" by (simp add: add_days_def)
  have d: "days_between (2025, 1, 31) (2025, 1, 20) = 11"
    "days_between (2025, 2, 20) (2025, 1, 31) = 20"
    by (simp_all add: ordinal_eval)
  show ?thesis
    by (simp add: w0 ex_window_1 ex_window_2 overlap_days_def d add_usage_def update_usage_def
        del: One_nat_def)
qed

lemma ex_usage:
  "usage_loop today (2025, 1, 1) 2 scenario_activities
      [(''Backend Developer'', [0, 0]), (''QA Engineer'', [0, 0])]
   = Inr [(''Backend Developer'', [31, 1]), (''QA Engineer'', [43, 22])]"
proof -
  have a: "activity_dates today (scenario_activities ! 0) = Inr ((2025, 1, 1), (2025, 1, 31))"
    by (simp add: scenario_activities_def activity_dates_def date_eval)
  have b: "activity_dates today (scenario_activities ! 1) = Inr ((2025, 1, 20), (2025, 2, 20))"
    by (simp add: scenario_activities_def activity_dates_def date_eval)
  have ra: "involved_roles_of (scenario_activities ! 0) = [''Backend Developer'', ''QA Engineer'']"
    by (simp add: scenario_activities_def involved_roles_of_def string_eval)
  have rb: "involved_roles_of (scenario_activities ! 1) = [''QA Engineer'']"
    by (simp add: scenario_activities_def involved_roles_of_def string_eval)
  have l: "scenario_activities = [scenario_activities ! 0, scenario_activities ! 1]"
    by (simp add: scenario_activities_def)
  show ?thesis
    by (subst l) (simp add: usage_activity_def a b ra rb upt_two ex_usage_A ex_usage_B
        del: One_nat_def usage_months.simps)
qed

lemma ex_normalize:
  "normalize today [act_A, act_B] =
     Inr \<lparr>n_activities = scenario_activities,
          n_role_order = [''Backend Developer'', ''QA Engineer''],
          n_total_months = 2,
          n_days = [(''Backend Developer'', [31, 1]), (''QA Engineer'', [43, 22])],
          n_role_month_usage = [(''Backend Developer'', [1, 1 / 4]), (''QA Engineer'', [1, 1])]\<rparr>"
proof -
  have dl: "dated_list today 1 [act_A, act_B] =
      Inr [\<lparr>d_ID = 1, d_Activities = ''A'', d_Description = ''first'',
             d_Owner = ''Backend Developer'', d_Resources = ''QA Engineer'',
             d_Start = (2025, 1, 1), d_End = (2025, 1, 31), d_Effort = 1\<rparr>,
           \<lparr>d_ID = 2, d_Activities = ''B'', d_Description = ''second'',
             d_Owner = ''QA Engineer'', d_Resources = '''',
             d_Start = (2025, 1, 20), d_End = (2025, 2, 20), d_Effort = to_double (103 / 100)\<rparr>]"
    by (simp add: ex_dated_A ex_dated_B)
  have ms: "min_or [(2025, 1, 1), (2025, 1, 20)] today = (2025, 1, 1)"
    by (simp add: min_or_def)
  have me: "max_or [(2025, 1, 31), (2025, 2, 20)] (2025, 1, 1) = (2025, 2, 20)"
    by (simp add: max_or_def)
  have k: "total_months_of (days_between (2025, 2, 20) (2025, 1, 1)) = 2"
    by (simp add: total_months_of_div ordinal_eval)
  have ro: "fold add_role (concat [roles_of act_A, roles_of act_B]) []
      = [''Backend Developer'', ''QA Engineer'']"
    by (simp add: roles_of_def raw_deps_def owner_of_def act_A_def act_B_def string_eval
        add_role_def)
  have rp: "replicate 2 (0::int) = [0, 0]" by (simp add: numeral_2_eq_2)
  have q: "quantize_usage [(''Backend Developer'', [31, 1]), (''QA Engineer'', [43, 22])]
      = [(''Backend Developer'', [1, 1 / 4]), (''QA Engineer'', [1, 1])]"
    by (simp add: quantize_usage_def quantize_def)
  show ?thesis
    unfolding normalize_alt dl
    by (simp only: sum.case Let_def list.map dated.select_convs ms me k ro rp ex_sorted
        ex_usage q)
qed

subsection \<open>The rows of day counts\<close>

lemma usage_ok_add:
  assumes "usage_ok K u" "0 < od"
  shows "usage_ok K (add_usage K m_idx od r u)"
proof -
  have upd: "length (row[m_idx := row ! m_idx + od]) = K \<and>
             (\<forall>x\<in>set (row[m_idx := row ! m_idx + od]). 0 \<le> x)"
    if row: "length row = K" "\<forall>x\<in>set row. 0 \<le> x" for row :: "int list"
  proof (cases "m_idx < length row")
    case True
    then have "0 \<le> row ! m_idx" using row(2) by simp
    with assms(2) have "0 \<le> row ! m_idx + od" by simp
    with row show ?thesis
      using set_update_subset_insert[of row m_idx "row ! m_idx + od"] by auto
  next
    case False
    then have "row[m_idx := row ! m_idx + od] = row" by (simp add: list_update_beyond)
    then show ?thesis using row by simp
  qed
  define row0 where "row0 = (case map_of u r of None \<Rightarrow> replicate K 0 | Some row \<Rightarrow> row)"
  have "length row0 = K \<and> (\<forall>x\<in>set row0. 0 \<le> x)"
  proof (cases "map_of u r")
    case None
    then show ?thesis by (simp add: row0_def)
  next
    case (Some row)
    then have "(r, row) \<in> set u" by (rule map_of_SomeD)
    with assms(1) Some show ?thesis by (auto simp: usage_ok_def row0_def)
  qed
  then have new: "length (row0[m_idx := row0 ! m_idx + od]) = K \<and>
             (\<forall>x\<in>set (row0[m_idx := row0 ! m_idx + od]). 0 \<le> x)"
    using upd[of row0] by simp
  have "set (update_usage r row u) \<subseteq> insert (r, row) (set u)" for row :: "int list"
    by (auto simp: update_usage_def split: if_splits)
  then have "set (add_usage K m_idx od r u) \<subseteq> insert (r, row0[m_idx := row0 ! m_idx + od]) (set u)"
    by (simp add: add_usage_def row0_def Let_def)
  with new assms(1) show ?thesis
    unfolding usage_ok_def by blast
qed

lemma usage_ok_fold:
  "usage_ok K u \<Longrightarrow> 0 < od \<Longrightarrow> usage_ok K (fold (add_usage K m_idx od) rs u)"
  by (induction rs arbitrary: u) (simp_all add: usage_ok_add)

lemma usage_ok_months:
  "usage_ok K u \<Longrightarrow> usage_months min_start K s e roles idxs u = Inr u' \<Longrightarrow> usage_ok K u'"
proof (induction idxs arbitrary: u)
  case Nil
  then show ?case by simp
next
  case (Cons m idxs)
  from Cons.prems(2) obtain rel_start rel_end where
    w: "add_days min_start (m * 30) = Inr rel_start" "add_days min_start ((m + 1) * 30) = Inr rel_end"
    by (auto split: sum.splits)
  let ?od = "overlap_days s e rel_start rel_end"
  let ?u = "if ?od > 0 then fold (add_usage K m ?od) roles u else u"
  have "usage_ok K ?u" using Cons.prems(1) by (simp add: usage_ok_fold)
  moreover have "usage_months min_start K s e roles idxs ?u = Inr u'"
    using Cons.prems(2) w by (simp add: Let_def)
  ultimately show ?case by (rule Cons.IH)
qed

lemma usage_ok_loop:
  "usage_ok K u \<Longrightarrow> usage_loop today min_start K acts u = Inr u' \<Longrightarrow> usage_ok K u'"
proof (induction acts arbitrary: u)
  case Nil
  then show ?case by simp
next
  case (Cons act acts)
  from Cons.prems(2) obtain u1 where u1: "usage_activity today min_start K act u = Inr u1"
    "usage_loop today min_start K acts u1 = Inr u'"
    by (auto split: sum.splits)
  from u1(1) have "usage_ok K u1"
    using usage_ok_months[OF Cons.prems(1)]
    by (auto simp: usage_activity_def split: sum.splits prod.splits)
  then show ?case using u1(2) by (rule Cons.IH)
qed

lemma usage_ok_initial: "usage_ok K (map (\<lambda>r. (r, replicate K 0)) order)"
  by (auto simp: usage_ok_def)

lemma normalize_days_ok:
  assumes "normalize today acts = Inr n"
  shows "usage_ok (n_total_months n) (n_days n)"
    and "n_role_month_usage n = quantize_usage (n_days n)"
proof -
  from assms obtain ds where ds: "dated_list today 1 acts = Inr ds"
    by (auto simp: normalize_alt split: sum.splits)
  define ms where "ms = min_or (map d_Start ds) today"
  define K where "K = total_months_of (days_between (max_or (map d_End ds) ms) ms)"
  define u0 where "u0 = map (\<lambda>r. (r, replicate K (0::int)))
      (fold add_role (concat (map roles_of acts)) [])"
  from assms ds obtain days where
    l: "usage_loop today ms K (renumber 1 (sort_key d_Start ds)) u0 = Inr days"
    and n: "n_days n = days" "n_total_months n = K" "n_role_month_usage n = quantize_usage days"
    by (auto simp: normalize_alt Let_def ms_def K_def u0_def split: sum.splits)
  have "usage_ok K u0" unfolding u0_def by (rule usage_ok_initial)
  from usage_ok_loop[OF this l] n show "usage_ok (n_total_months n) (n_days n)" by simp
  from n show "n_role_month_usage n = quantize_usage (n_days n)" by simp
qed


subsection \<open>The keys of the day counts\<close>

lemma map_fst_update_usage:
  "r \<in> fst ` set u \<Longrightarrow> map fst (update_usage r row u) = map fst u"
  by (auto simp: update_usage_def)

lemma map_fst_add_usage:
  "r \<in> set (map fst u) \<Longrightarrow> map fst (add_usage K m_idx od r u) = map fst u"
  by (simp add: add_usage_def Let_def map_fst_update_usage)

lemma map_fst_fold_add_usage:
  "set rs \<subseteq> set (map fst u) \<Longrightarrow> map fst (fold (add_usage K m_idx od) rs u) = map fst u"
proof (induction rs arbitrary: u)
  case Nil
  then show ?case by simp
next
  case (Cons r rs)
  from Cons.prems have "map fst (add_usage K m_idx od r u) = map fst u"
    by (simp add: map_fst_add_usage)
  with Cons.IH[of "add_usage K m_idx od r u"] Cons.prems show ?case by simp
qed

lemma map_fst_usage_months:
  "set roles \<subseteq> set (map fst u) \<Longrightarrow> usage_months min_start K s e roles idxs u = Inr u'
     \<Longrightarrow> map fst u' = map fst u"
proof (induction idxs arbitrary: u)
  case Nil
  then show ?case by simp
next
  case (Cons m idxs)
  from Cons.prems(2) obtain rel_start rel_end where
    w: "add_days min_start (m * 30) = Inr rel_start" "add_days min_start ((m + 1) * 30) = Inr rel_end"
    by (auto split: sum.splits)
  let ?od = "overlap_days s e rel_start rel_end"
  let ?u = "if ?od > 0 then fold (add_usage K m ?od) roles u else u"
  have k: "map fst ?u = map fst u" using Cons.prems(1) by (simp add: map_fst_fold_add_usage)
  have "usage_months min_start K s e roles idxs ?u = Inr u'"
    using Cons.prems(2) w by (simp add: Let_def)
  with Cons.IH[of ?u] k Cons.prems(1) show ?case by simp
qed

lemma map_fst_usage_loop:
  "\<forall>act\<in>set acts. set (involved_roles_of act) \<subseteq> set (map fst u)
     \<Longrightarrow> usage_loop today min_start K acts u = Inr u' \<Longrightarrow> map fst u' = map fst u"
proof (induction acts arbitrary: u)
  case Nil
  then show ?case by simp
next
  case (Cons act acts)
  from Cons.prems(2) obtain u1 where u1: "usage_activity today min_start K act u = Inr u1"
    "usage_loop today min_start K acts u1 = Inr u'"
    by (auto split: sum.splits)
  from u1(1) Cons.prems(1) have k: "map fst u1 = map fst u"
    by (auto simp: usage_activity_def split: sum.splits prod.splits dest!: map_fst_usage_months[rotated])
  with Cons.IH[of u1] Cons.prems(1) u1(2) show ?case by simp
qed

lemma map_fst_quantize_usage: "map fst (quantize_usage u) = map fst u"
  by (simp add: quantize_usage_def case_prod_unfold comp_def)

text \<open>What the normalizer returns, entry by entry of the first loop.\<close>

lemma normalize_parts:
  assumes "normalize today acts = Inr n" "valid_date today"
  shows "\<exists>ds. dated_list today 1 acts = Inr ds
           \<and> length ds = length acts \<and> (\<forall>d\<in>set ds. good_dated d)
           \<and> map d_roles ds = map roles_of acts
           \<and> n_activities n = renumber 1 (sort_key d_Start ds)
           \<and> n_role_order n = fold add_role (concat (map roles_of acts)) []"
    and "map fst (n_days n) = n_role_order n"
    and "map fst (n_role_month_usage n) = n_role_order n"
    and "usage_ok (n_total_months n) (n_days n)"
    and "n_role_month_usage n = quantize_usage (n_days n)"
proof -
  from assms(1) obtain ds where ds: "dated_list today 1 acts = Inr ds"
    by (auto simp: normalize_alt split: sum.splits)
  define ms where "ms = min_or (map d_Start ds) today"
  define K where "K = total_months_of (days_between (max_or (map d_End ds) ms) ms)"
  define ro where "ro = fold add_role (concat (map roles_of acts)) []"
  define u0 where "u0 = map (\<lambda>r. (r, replicate K (0::int))) ro"
  define A where "A = renumber 1 (sort_key d_Start ds)"
  from assms(1) ds obtain days where
    l: "usage_loop today ms K A u0 = Inr days"
    and n: "n_days n = days" "n_total_months n = K" "n_role_month_usage n = quantize_usage days"
      "n_activities n = A" "n_role_order n = ro"
    by (auto simp: normalize_alt Let_def ms_def K_def u0_def ro_def A_def split: sum.splits)
  note props = dated_list_props[OF ds assms(2)]
  show "\<exists>ds. dated_list today 1 acts = Inr ds
           \<and> length ds = length acts \<and> (\<forall>d\<in>set ds. good_dated d)
           \<and> map d_roles ds = map roles_of acts
           \<and> n_activities n = renumber 1 (sort_key d_Start ds)
           \<and> n_role_order n = fold add_role (concat (map roles_of acts)) []"
    using ds props n(4,5) by (auto simp: A_def ro_def)
  have "\<forall>act\<in>set A. set (involved_roles_of act) \<subseteq> set (map fst u0)"
  proof
    fix act assume "act \<in> set A"
    then obtain i d where d: "d \<in> set ds" "act = finish_activity i d"
      unfolding A_def by (auto dest: renumber_set)
    then have "involved_roles_of act = d_roles d"
      using props(2) by (simp add: finish_activity_fields(5))
    moreover have "set (d_roles d) \<subseteq> set (concat (map d_roles ds))" using d(1) by auto
    moreover have "set (map fst u0) = set (concat (map d_roles ds))"
      by (simp add: u0_def ro_def set_fold_add_role props(3) comp_def)
    ultimately show "set (involved_roles_of act) \<subseteq> set (map fst u0)" by simp
  qed
  from map_fst_usage_loop[OF this l] have "map fst days = ro" by (simp add: u0_def comp_def)
  then show "map fst (n_days n) = n_role_order n"
    and "map fst (n_role_month_usage n) = n_role_order n"
    by (simp_all add: n map_fst_quantize_usage)
  have "usage_ok K u0" unfolding u0_def by (rule usage_ok_initial)
  from usage_ok_loop[OF this l] n show "usage_ok (n_total_months n) (n_days n)" by simp
  from n show "n_role_month_usage n = quantize_usage (n_days n)" by simp
qed

subsection \<open>The entries of the plan\<close>

lemma build_plan_roles: "map Plan_Resources (build_plan dyn u K idx roles) = roles"
  by (induction roles arbitrary: idx) (simp_all add: Let_def)

lemma build_plan_length: "length (build_plan dyn u K idx roles) = length roles"
  by (induction roles arbitrary: idx) (simp_all add: Let_def)

lemma build_plan_nth:
  "i < length roles \<Longrightarrow>
   build_plan dyn u K idx roles ! i =
     \<lparr>Plan_ID = idx + int i, Plan_Resources = roles ! i,
      Rate_month = role_rate dyn (roles ! i),
      Months = (case map_of u (roles ! i) of Some row \<Rightarrow> row | None \<Rightarrow> replicate K 0),
      Efforts = sum_list (case map_of u (roles ! i) of Some row \<Rightarrow> row | None \<Rightarrow> replicate K 0),
      Cost = py_round2 (to_double
               (sum_list (case map_of u (roles ! i) of Some row \<Rightarrow> row | None \<Rightarrow> replicate K 0)
                * role_rate dyn (roles ! i)))\<rparr>"
proof (induction roles arbitrary: idx i)
  case Nil
  then show ?case by simp
next
  case (Cons role roles)
  show ?case
  proof (cases i)
    case 0
    then show ?thesis by (simp add: Let_def)
  next
    case (Suc j)
    with Cons.prems have "j < length roles" by simp
    from Cons.IH[OF this, of "idx + 1"] Suc show ?thesis by (simp add: Let_def)
  qed
qed

lemma apply_discount_length: "length (apply_discount dp plan) = length plan"
  by (simp add: apply_discount_def Let_def)

lemma apply_discount_nth:
  "i < length plan \<Longrightarrow>
   apply_discount dp plan ! i =
     (plan ! i)\<lparr>Cost := (if discount_applies dp
                          then py_round2 (to_double (Cost (plan ! i)
                                 * discount_multiplier (discount_value dp)))
                          else Cost (plan ! i))\<rparr>"
  by (simp add: apply_discount_def Let_def)

lemma clean_scope_out:
  assumes "clean_scope today db proj data = Inr out"
  shows "\<exists>n. normalize today (scope_activities data) = Inr n
           \<and> activities out = JVal (n_activities n)
           \<and> resourcing_plan out =
               JVal (apply_discount (discount_percentage data)
                      (build_plan (rate_map_dynamic db proj) (n_role_month_usage n)
                         (n_total_months n) 1 (n_role_order n)))
           \<and> discount_percentage out = discount_percentage data"
  using assms by (auto simp: clean_scope_def Let_def split: sum.splits)

subsection \<open>Floats that are integers or dyadic fractions\<close>

lemma round_half_even_of_int: "round_half_even (of_int n) = n"
  by (simp add: round_half_even_def)

lemma to_double_dyadic:
  assumes "\<bar>n\<bar> < 2 ^ 53"
  shows "to_double (of_int n / 2 ^ j) = of_int n / 2 ^ j"
proof (cases "n = 0")
  case True
  then show ?thesis by (simp add: to_double_def)
next
  case False
  define x :: rat where "x = of_int n / 2 ^ j"
  have x0: "0 < \<bar>x\<bar>" using False by (simp add: x_def)
  define e where "e = binade \<bar>x\<bar> - 52"
  have "(of_int \<bar>n\<bar> :: rat) < of_int (2 ^ 53)" using assms by (simp only: of_int_less_iff)
  then have n53: "\<bar>of_int n :: rat\<bar> < 2 ^ 53" by simp
  have "2 powi (binade \<bar>x\<bar>) \<le> \<bar>x\<bar>" using binade_bounds(1)[OF x0] .
  also have "\<bar>x\<bar> = \<bar>of_int n\<bar> / 2 ^ j" by (simp add: x_def)
  also have "\<dots> < 2 ^ 53 / 2 ^ j" using n53 by (simp add: divide_strict_right_mono)
  also have "\<dots> = 2 powi (53 - int j)" by (simp add: power_int_diff)
  finally have "binade \<bar>x\<bar> < 53 - int j"
    using power_int_increasing[of "53 - int j" "binade \<bar>x\<bar>" "2::rat"]
    by (cases "binade \<bar>x\<bar> < 53 - int j") auto
  then have k: "0 \<le> - int j - e" by (simp add: e_def)
  define k where "k = nat (- int j - e)"
  have "(2::rat) powi e = 2 powi (- int j - int k)" using k by (simp add: k_def)
  also have "\<dots> = 1 / (2 ^ j * 2 ^ k)"
    by (simp add: power_int_diff power_int_minus divide_simps)
  finally have pe: "(2::rat) powi e = 1 / (2 ^ j * 2 ^ k)" .
  have "x / 2 powi e = of_int (n * 2 ^ k)" by (simp add: pe x_def)
  then have "round_half_even (x / 2 powi e) = n * 2 ^ k"
    by (simp only: round_half_even_of_int)
  then have "to_double x = of_int (n * 2 ^ k) * 2 powi e"
    using x0 by (simp add: to_double_def e_def Let_def)
  also have "\<dots> = x" by (simp add: pe x_def)
  finally show ?thesis by (simp add: x_def)
qed

lemma to_double_int: "\<bar>n\<bar> < 2 ^ 53 \<Longrightarrow> to_double (of_int n) = of_int n"
  using to_double_dyadic[of n 0] by simp

lemma to_double_numeral: "numeral k < (2 ^ 53 :: int) \<Longrightarrow> to_double (numeral k) = numeral k"
  using to_double_int[of "numeral k"] by simp

lemma py_round2_int:
  assumes "\<bar>n\<bar> < 2 ^ 53"
  shows "py_round2 (of_int n) = of_int n"
proof -
  have "(of_int n * 100 :: rat) = of_int (n * 100)" by simp
  then have "round_half_even (of_int n * 100) = n * 100"
    by (simp only: round_half_even_of_int)
  then have "py_round2 (of_int n) = to_double (of_int n)"
    by (simp add: py_round2_def)
  then show ?thesis using to_double_int[OF assms] by simp
qed

lemma py_round2_numeral:
  "numeral k < (2 ^ 53 :: int) \<Longrightarrow> py_round2 (numeral k) = numeral k"
  using py_round2_int[of "numeral k"] by simp

subsection \<open>The rate of a role\<close>

lemma role_rate_chain:
  "role_rate (rate_map_dynamic db proj) role =
     (let builtin = (case map_of ROLE_RATE_MAP role of Some r \<Rightarrow> r | None \<Rightarrow> 2000);
          in_card = (\<lambda>rows. case map_of (rev rows) role of Some r \<Rightarrow> r | None \<Rightarrow> builtin);
          sigmoid = (\<lambda>d. case sigmoid_company d of
                            Inl e \<Rightarrow> builtin
                          | Inr None \<Rightarrow> builtin
                          | Inr (Some sid) \<Rightarrow>
                              (case rate_cards d sid of
                                 Inl e \<Rightarrow> builtin
                               | Inr rows \<Rightarrow> if rows = [] then builtin else in_card rows))
      in case db of
           None \<Rightarrow> builtin
         | Some d \<Rightarrow>
             (case proj of
                None \<Rightarrow> sigmoid d
              | Some p \<Rightarrow>
                  (case company_id p of
                     None \<Rightarrow> sigmoid d
                   | Some cid \<Rightarrow>
                       (case rate_cards d cid of
                          Inl e \<Rightarrow> builtin
                        | Inr rows \<Rightarrow> if rows = [] then sigmoid d else in_card rows))))"
  by (auto simp: role_rate_def rate_map_dynamic_def get_rate_map_for_project_def
      company_rates_def sigmoid_rates_def rate_dict_def Let_def
      split: option.splits sum.splits)

lemma plan_rates:
  assumes "clean_scope today db proj data = Inr out" "valid_date today"
  shows "\<exists>n plan. normalize today (scope_activities data) = Inr n
           \<and> resourcing_plan out = JVal plan
           \<and> map Plan_Resources plan = n_role_order n
           \<and> map fst (n_role_month_usage n) = n_role_order n
           \<and> (\<forall>p\<in>set plan. Rate_month p = role_rate (rate_map_dynamic db proj) (Plan_Resources p))"
proof -
  from clean_scope_out[OF assms(1)] obtain n where
    n: "normalize today (scope_activities data) = Inr n"
    and plan: "resourcing_plan out =
               JVal (apply_discount (discount_percentage data)
                      (build_plan (rate_map_dynamic db proj) (n_role_month_usage n)
                         (n_total_months n) 1 (n_role_order n)))"
    by blast
  let ?b = "build_plan (rate_map_dynamic db proj) (n_role_month_usage n)
                         (n_total_months n) 1 (n_role_order n)"
  let ?plan = "apply_discount (discount_percentage data) ?b"
  have len: "length ?plan = length (n_role_order n)"
    by (simp add: apply_discount_length build_plan_length)
  have nth: "Plan_Resources (?plan ! i) = n_role_order n ! i
             \<and> Rate_month (?plan ! i) = role_rate (rate_map_dynamic db proj) (n_role_order n ! i)"
    if "i < length (n_role_order n)" for i
    using that by (simp add: apply_discount_nth build_plan_length build_plan_nth)
  have "map Plan_Resources ?plan = n_role_order n"
    using len nth by (intro nth_equalityI) simp_all
  moreover have "\<forall>p\<in>set ?plan. Rate_month p = role_rate (rate_map_dynamic db proj) (Plan_Resources p)"
    using len nth by (auto simp: in_set_conv_nth)
  ultimately show ?thesis
    using n plan normalize_parts(3)[OF n assms(2)] by blast
qed

subsection \<open>The scenario through the aggregator\<close>

lemma ex_clean_scope:
  "clean_scope today db proj (scenario_scope dp) =
     Inr \<lparr>activities = JVal scenario_activities,
          resourcing_plan = JVal (apply_discount dp
            [\<lparr>Plan_ID = 1, Plan_Resources = ''Backend Developer'',
               Rate_month = role_rate (rate_map_dynamic db proj) ''Backend Developer'',
               Months = [1, 1 / 4], Efforts = 5 / 4,
               Cost = py_round2 (to_double
                        (5 / 4 * role_rate (rate_map_dynamic db proj) ''Backend Developer''))\<rparr>,
             \<lparr>Plan_ID = 2, Plan_Resources = ''QA Engineer'',
               Rate_month = role_rate (rate_map_dynamic db proj) ''QA Engineer'',
               Months = [1, 1], Efforts = 2,
               Cost = py_round2 (to_double
                        (2 * role_rate (rate_map_dynamic db proj) ''QA Engineer''))\<rparr>]),
          discount_percentage = dp\<rparr>"
  by (simp add: clean_scope_def scenario_scope_def scope_activities_def ex_normalize Let_def)

subsection \<open>The plan, entry by entry\<close>

lemma distinct_fold_add_role: "distinct order \<Longrightarrow> distinct (fold add_role rs order)"
  by (induction rs arbitrary: order) (simp_all add: add_role_def)

lemma map_of_nth:
  "distinct (map fst u) \<Longrightarrow> i < length u \<Longrightarrow> map_of u (fst (u ! i)) = Some (snd (u ! i))"
  by (rule map_of_is_SomeI) (simp_all add: nth_mem)

lemma plan_entries:
  assumes "clean_scope today db proj data = Inr out" "valid_date today"
  shows "\<exists>n plan. normalize today (scope_activities data) = Inr n
      \<and> activities out = JVal (n_activities n)
      \<and> discount_percentage out = discount_percentage data
      \<and> resourcing_plan out = JVal plan
      \<and> length plan = length (n_role_month_usage n)
      \<and> distinct (map fst (n_role_month_usage n))
      \<and> (\<forall>i<length plan.
            Plan_ID (plan ! i) = 1 + int i
          \<and> Plan_Resources (plan ! i) = fst (n_role_month_usage n ! i)
          \<and> Rate_month (plan ! i) = role_rate (rate_map_dynamic db proj) (Plan_Resources (plan ! i))
          \<and> Months (plan ! i) = snd (n_role_month_usage n ! i)
          \<and> Efforts (plan ! i) = sum_list (Months (plan ! i))
          \<and> Cost (plan ! i) =
              (if discount_applies (discount_percentage data)
               then py_round2 (to_double
                      (py_round2 (to_double (Efforts (plan ! i) * Rate_month (plan ! i)))
                       * discount_multiplier (discount_value (discount_percentage data))))
               else py_round2 (to_double (Efforts (plan ! i) * Rate_month (plan ! i)))))"
proof -
  from clean_scope_out[OF assms(1)] obtain n where
    n: "normalize today (scope_activities data) = Inr n"
    and out: "activities out = JVal (n_activities n)"
      "discount_percentage out = discount_percentage data"
    and plan: "resourcing_plan out =
               JVal (apply_discount (discount_percentage data)
                      (build_plan (rate_map_dynamic db proj) (n_role_month_usage n)
                         (n_total_months n) 1 (n_role_order n)))"
    by blast
  let ?u = "n_role_month_usage n"
  let ?b = "build_plan (rate_map_dynamic db proj) ?u (n_total_months n) 1 (n_role_order n)"
  let ?plan = "apply_discount (discount_percentage data) ?b"
  note parts = normalize_parts[OF n assms(2)]
  have keys: "map fst ?u = n_role_order n" by (rule parts(3))
  from parts(1) have "distinct (n_role_order n)" by (auto simp: distinct_fold_add_role)
  with keys have dist: "distinct (map fst ?u)" by simp
  have len: "length ?plan = length ?u"
    using arg_cong[OF keys, of length] by (simp add: apply_discount_length build_plan_length)
  have entry: "Plan_ID (?plan ! i) = 1 + int i
          \<and> Plan_Resources (?plan ! i) = fst (?u ! i)
          \<and> Rate_month (?plan ! i) = role_rate (rate_map_dynamic db proj) (Plan_Resources (?plan ! i))
          \<and> Months (?plan ! i) = snd (?u ! i)
          \<and> Efforts (?plan ! i) = sum_list (Months (?plan ! i))
          \<and> Cost (?plan ! i) =
              (if discount_applies (discount_percentage data)
               then py_round2 (to_double
                      (py_round2 (to_double (Efforts (?plan ! i) * Rate_month (?plan ! i)))
                       * discount_multiplier (discount_value (discount_percentage data))))
               else py_round2 (to_double (Efforts (?plan ! i) * Rate_month (?plan ! i))))"
    if i: "i < length ?plan" for i
  proof -
    from i len have iu: "i < length ?u" by simp
    then have ir: "i < length (n_role_order n)" using arg_cong[OF keys, of length] by simp
    have role: "n_role_order n ! i = fst (?u ! i)"
      using iu arg_cong[OF keys, of "\<lambda>xs. xs ! i"] by simp
    have row: "map_of ?u (fst (?u ! i)) = Some (snd (?u ! i))"
      using dist iu by (rule map_of_nth)
    show ?thesis
      using ir by (simp add: apply_discount_nth build_plan_length build_plan_nth role row)
  qed
  show ?thesis
    using n out plan len dist entry by blast
qed

lemma quantize_usage_nth:
  "i < length u \<Longrightarrow> quantize_usage u ! i = (fst (u ! i), map quantize (snd (u ! i)))"
  by (simp add: quantize_usage_def case_prod_unfold)

lemma usage_ok_nth:
  assumes "usage_ok K u" "i < length u"
  shows "length (snd (u ! i)) = K \<and> (\<forall>m<K. 0 \<le> snd (u ! i) ! m)"
proof -
  obtain r row where e: "u ! i = (r, row)" by (cases "u ! i")
  with assms(2) have "(r, row) \<in> set u" using nth_mem by metis
  with assms(1) have "length row = K" "\<forall>x\<in>set row. 0 \<le> x" by (auto simp: usage_ok_def)
  then show ?thesis by (simp add: e)
qed

subsection \<open>The costs of the example\<close>













subsection \<open>An activity without an owner\<close>

lemma ex_dated_U:
  "dated_of today idx act_U =
     Inr \<lparr>d_ID = idx, d_Activities = ''Kickoff'', d_Description = ''Start of the project'',
          d_Owner = ''Unassigned'', d_Resources = '''',
          d_Start = (2025, 1, 1), d_End = (2025, 1, 31), d_Effort = 1\<rparr>"
proof -
  have "activity_dates today act_U = Inr ((2025, 1, 1), (2025, 1, 31))"
    by (simp add: activity_dates_def act_U_def date_eval)
  moreover have "raw_deps act_U = []"
    by (simp add: raw_deps_def owner_of_def act_U_def string_eval)
  moreover have "owner_of act_U = ''Unassigned''"
    by (simp add: owner_of_def act_U_def get_or_def)
  moreover have "days_between (2025, 1, 31) (2025, 1, 1) = 30"
    by (simp add: ordinal_eval)
  moreover have "py_round2 (to_double (30 / 30)) = 1" by (simp add: to_double_one py_round2_one)
  ultimately show ?thesis
    by (simp add: dated_of_def month_effort_case)
       (simp add: act_U_def string_eval)
qed

lemma ex_usage_U:
  "usage_loop today (2025, 1, 1) 1 [unassigned_activity] [(''Unassigned'', [0])]
     = Inr [(''Unassigned'', [31])]"
proof -
  have a: "activity_dates today unassigned_activity = Inr ((2025, 1, 1), (2025, 1, 31))"
    by (simp add: unassigned_activity_def activity_dates_def date_eval)
  have r: "involved_roles_of unassigned_activity = [''Unassigned'']"
    by (simp add: unassigned_activity_def involved_roles_of_def string_eval)
  have w0: "add_days (2025, 1, 1) 0 = Inr (2025, 1, 1)" by (simp add: add_days_def)
  have d: "days_between (2025, 1, 31) (2025, 1, 1) = 30" by (simp add: ordinal_eval)
  have m: "usage_months (2025, 1, 1) 1 (2025, 1, 1) (2025, 1, 31) [''Unassigned''] [0]
      [(''Unassigned'', [0])] = Inr [(''Unassigned'', [31])]"
    by (simp add: w0 ex_window_1 overlap_days_def d add_usage_def update_usage_def
        del: One_nat_def)
  have u: "[0..<1] = [0::nat]" by simp
  show ?thesis
    by (simp add: usage_activity_def a r u m del: One_nat_def usage_months.simps)
qed

lemma ex_normalize_U:
  "normalize today [act_U] =
     Inr \<lparr>n_activities = [unassigned_activity],
          n_role_order = [''Unassigned''],
          n_total_months = 1,
          n_days = [(''Unassigned'', [31])],
          n_role_month_usage = [(''Unassigned'', [1])]\<rparr>"
proof -
  have dl: "dated_list today 1 [act_U] =
      Inr [\<lparr>d_ID = 1, d_Activities = ''Kickoff'', d_Description = ''Start of the project'',
          d_Owner = ''Unassigned'', d_Resources = '''',
          d_Start = (2025, 1, 1), d_End = (2025, 1, 31), d_Effort = 1\<rparr>]"
    by (simp add: ex_dated_U)
  have so: "renumber 1 (sort_key d_Start
      [\<lparr>d_ID = 1, d_Activities = ''Kickoff'', d_Description = ''Start of the project'',
          d_Owner = ''Unassigned'', d_Resources = '''',
          d_Start = (2025, 1, 1), d_End = (2025, 1, 31), d_Effort = 1\<rparr>])
      = [unassigned_activity]"
    by (simp add: unassigned_activity_def finish_activity_def strftime_def year_text_def
        digit_char_def)
  have ms: "min_or [(2025, 1, 1)] today = (2025, 1, 1)" by (simp add: min_or_def)
  have me: "max_or [(2025, 1, 31)] (2025, 1, 1) = (2025, 1, 31)" by (simp add: max_or_def)
  have k: "total_months_of (days_between (2025, 1, 31) (2025, 1, 1)) = 1"
    by (simp add: total_months_of_div ordinal_eval)
  have ro: "fold add_role (concat [roles_of act_U]) [] = [''Unassigned'']"
    by (simp add: roles_of_def raw_deps_def owner_of_def act_U_def string_eval add_role_def)
  have rp: "replicate 1 (0::int) = [0]" by simp
  have q: "quantize_usage [(''Unassigned'', [31])] = [(''Unassigned'', [1])]"
    by (simp add: quantize_usage_def quantize_def)
  show ?thesis
    unfolding normalize_alt dl
    by (simp only: sum.case Let_def list.map dated.select_convs ms me k ro rp so ex_usage_U q)
qed

lemma ex_clean_scope_U:
  "clean_scope today db proj unassigned_scope =
     Inr \<lparr>activities = JVal [unassigned_activity],
          resourcing_plan = JVal
            [\<lparr>Plan_ID = 1, Plan_Resources = ''Unassigned'',
               Rate_month = role_rate (rate_map_dynamic db proj) ''Unassigned'',
               Months = [1], Efforts = 1,
               Cost = py_round2 (to_double
                        (1 * role_rate (rate_map_dynamic db proj) ''Unassigned''))\<rparr>],
          discount_percentage = No_Discount\<rparr>"
  by (simp add: clean_scope_def unassigned_scope_def scope_activities_def ex_normalize_U Let_def
      apply_discount_def discount_applies_def)

lemma dated_list_mem:
  "dated_list today idx acts = Inr ds \<Longrightarrow> a \<in> set acts
     \<Longrightarrow> \<exists>d\<in>set ds. \<exists>i. dated_of today i a = Inr d"
proof (induction acts arbitrary: idx ds)
  case Nil
  then show ?case by simp
next
  case (Cons b acts)
  from Cons.prems(1) obtain d ds' where d: "dated_of today idx b = Inr d"
    "dated_list today (idx + 1) acts = Inr ds'" "ds = d # ds'"
    by (auto split: sum.splits)
  show ?case
  proof (cases "a = b")
    case True
    with d show ?thesis by auto
  next
    case False
    with Cons.prems(2) have "a \<in> set acts" by simp
    from Cons.IH[OF d(2) this] d(3) show ?thesis by auto
  qed
qed

lemma renumber_mem: "d \<in> set S \<Longrightarrow> \<exists>i. finish_activity i d \<in> set (renumber j S)"
proof (induction S arbitrary: j)
  case Nil
  then show ?case by simp
next
  case (Cons x S)
  show ?case
  proof (cases "d = x")
    case True
    then show ?thesis by auto
  next
    case False
    with Cons.prems have "d \<in> set S" by simp
    from Cons.IH[OF this, of "j + 1"] show ?thesis by auto
  qed
qed

lemma quantize_tier: "quantize d \<in> {0, 1 / 4, 1 / 2, 3 / 4, 1}"
  by (simp add: quantize_def)

lemma unlisted_rate:
  assumes "map_of ROLE_RATE_MAP role = None"
    and "\<forall>d cid rows. db = Some d \<and> rate_cards d cid = Inr rows \<longrightarrow> role \<notin> fst ` set rows"
  shows "role_rate (rate_map_dynamic db proj) role = 2000"
proof -
  have c: "map_of (rev rows) role = None" if "db = Some d" "rate_cards d cid = Inr rows"
    for d cid rows
    using assms(2) that by (simp add: map_of_eq_None_iff)
  show ?thesis
    unfolding role_rate_chain Let_def
    using assms(1) c by (auto split: option.splits sum.splits)
qed

section \<open>The claims\<close>

text \<open>
  C7.  The rate of a role is looked up in the rate card in force, then in the built-in
  table, and is 2000 when neither lists the role.  The card in force is the card of the
  project's company when the company has rows; otherwise (no project, no company, or a
  company without rows) the card of the company named Sigmoid when there is one and it
  has rows; otherwise the built-in table.  A query that raises ends in the built-in table.
  In the scope \<^verbatim>\<open>clean_scope\<close> returns, the plan has one entry for every role of the
  allocation map, in its order, and the rate of the entry is this rate of its role.
\<close>

theorem rate_fallback_chain:
  "role_rate (rate_map_dynamic db proj) role =
     (let builtin = (case map_of ROLE_RATE_MAP role of Some r \<Rightarrow> r | None \<Rightarrow> 2000);
          in_card = (\<lambda>rows. case map_of (rev rows) role of Some r \<Rightarrow> r | None \<Rightarrow> builtin);
          sigmoid = (\<lambda>d. case sigmoid_company d of
                            Inl e \<Rightarrow> builtin
                          | Inr None \<Rightarrow> builtin
                          | Inr (Some sid) \<Rightarrow>
                              (case rate_cards d sid of
                                 Inl e \<Rightarrow> builtin
                               | Inr rows \<Rightarrow> if rows = [] then builtin else in_card rows))
      in case db of
           None \<Rightarrow> builtin
         | Some d \<Rightarrow>
             (case proj of
                None \<Rightarrow> sigmoid d
              | Some p \<Rightarrow>
                  (case company_id p of
                     None \<Rightarrow> sigmoid d
                   | Some cid \<Rightarrow>
                       (case rate_cards d cid of
                          Inl e \<Rightarrow> builtin
                        | Inr rows \<Rightarrow> if rows = [] then sigmoid d else in_card rows))))
   \<and> (valid_date today \<and> clean_scope today db proj data = Inr out \<longrightarrow>
        (\<exists>n plan. normalize today (scope_activities data) = Inr n
           \<and> resourcing_plan out = JVal plan
           \<and> map fst (n_role_month_usage n) = map Plan_Resources plan
           \<and> (\<forall>p\<in>set plan.
                 Rate_month p = role_rate (rate_map_dynamic db proj) (Plan_Resources p))))"
proof (intro conjI impI)
  show "role_rate (rate_map_dynamic db proj) role =
     (let builtin = (case map_of ROLE_RATE_MAP role of Some r \<Rightarrow> r | None \<Rightarrow> 2000);
          in_card = (\<lambda>rows. case map_of (rev rows) role of Some r \<Rightarrow> r | None \<Rightarrow> builtin);
          sigmoid = (\<lambda>d. case sigmoid_company d of
                            Inl e \<Rightarrow> builtin
                          | Inr None \<Rightarrow> builtin
                          | Inr (Some sid) \<Rightarrow>
                              (case rate_cards d sid of
                                 Inl e \<Rightarrow> builtin
                               | Inr rows \<Rightarrow> if rows = [] then builtin else in_card rows))
      in case db of
           None \<Rightarrow> builtin
         | Some d \<Rightarrow>
             (case proj of
                None \<Rightarrow> sigmoid d
              | Some p \<Rightarrow>
                  (case company_id p of
                     None \<Rightarrow> sigmoid d
                   | Some cid \<Rightarrow>
                       (case rate_cards d cid of
                          Inl e \<Rightarrow> builtin
                        | Inr rows \<Rightarrow> if rows = [] then sigmoid d else in_card rows))))"
    by (rule role_rate_chain)
next
  assume a: "valid_date today \<and> clean_scope today db proj data = Inr out"
  from plan_rates[of today db proj data out] a
  show "\<exists>n plan. normalize today (scope_activities data) = Inr n
           \<and> resourcing_plan out = JVal plan
           \<and> map fst (n_role_month_usage n) = map Plan_Resources plan
           \<and> (\<forall>p\<in>set plan.
                 Rate_month p = role_rate (rate_map_dynamic db proj) (Plan_Resources p))"
    by auto
qed

theorem rate_fallback_chain_witness:
  "role_rate (rate_map_dynamic (Some demo_db) (Some \<lparr>company_id = Some 1\<rparr>)) ''QA Engineer'' = 1900
   \<and> role_rate (rate_map_dynamic (Some demo_db) (Some \<lparr>company_id = Some 1\<rparr>)) ''Backend Developer'' = 3000
   \<and> role_rate (rate_map_dynamic (Some demo_db) (Some \<lparr>company_id = Some 1\<rparr>)) ''Astronaut'' = 2000
   \<and> role_rate (rate_map_dynamic (Some demo_db) (Some \<lparr>company_id = Some 3\<rparr>)) ''Backend Developer'' = 9999
   \<and> role_rate (rate_map_dynamic (Some demo_db) (Some \<lparr>company_id = Some 3\<rparr>)) ''Data Architect'' = 3500
   \<and> role_rate (rate_map_dynamic (Some demo_db) (Some \<lparr>company_id = Some 3\<rparr>)) ''Astronaut'' = 2000
   \<and> role_rate (rate_map_dynamic (Some demo_db) (Some \<lparr>company_id = None\<rparr>)) ''Backend Developer'' = 9999
   \<and> role_rate (rate_map_dynamic (Some demo_db) None) ''Backend Developer'' = 9999
   \<and> role_rate (rate_map_dynamic (Some demo_db) (Some \<lparr>company_id = Some 4\<rparr>)) ''Backend Developer'' = 3000
   \<and> role_rate (rate_map_dynamic (Some (demo_db\<lparr>sigmoid_company := Inr None\<rparr>))
        (Some \<lparr>company_id = Some 3\<rparr>)) ''Backend Developer'' = 3000
   \<and> role_rate (rate_map_dynamic None (Some \<lparr>company_id = Some 1\<rparr>)) ''QA Engineer'' = 2000
   \<and> map (\<lambda>p. (Plan_Resources p, Rate_month p))
        (plan_of (clean_scope (2025, 6, 1) (Some demo_db) (Some \<lparr>company_id = Some 1\<rparr>)
           (scenario_scope No_Discount)))
      = [(''Backend Developer'', 3000), (''QA Engineer'', 1900)]
   \<and> map (\<lambda>p. (Plan_Resources p, Rate_month p))
        (plan_of (clean_scope (2025, 6, 1) (Some demo_db) (Some \<lparr>company_id = Some 3\<rparr>)
           (scenario_scope No_Discount)))
      = [(''Backend Developer'', 9999), (''QA Engineer'', 2000)]"
proof -
  let ?c1 = "Some \<lparr>company_id = Some 1\<rparr>" and ?c3 = "Some \<lparr>company_id = Some 3\<rparr>"
  let ?db = "Some demo_db" and ?t = "(2025, 6, 1) :: datetime"
  note ev = demo_db_def ROLE_RATE_MAP_def
  have v: "valid_date ?t" by (simp add: valid_date_def days_in_month_def)
  have r1: "role_rate (rate_map_dynamic ?db ?c1) ''QA Engineer'' = 1900"
    using rate_fallback_chain[where db = ?db and proj = ?c1 and role = "''QA Engineer''",
        THEN conjunct1] by (simp add: ev)
  have r2: "role_rate (rate_map_dynamic ?db ?c1) ''Backend Developer'' = 3000"
    using rate_fallback_chain[where db = ?db and proj = ?c1 and role = "''Backend Developer''",
        THEN conjunct1] by (simp add: ev)
  have r3: "role_rate (rate_map_dynamic ?db ?c1) ''Astronaut'' = 2000"
    using rate_fallback_chain[where db = ?db and proj = ?c1 and role = "''Astronaut''",
        THEN conjunct1] by (simp add: ev)
  have r4: "role_rate (rate_map_dynamic ?db ?c3) ''Backend Developer'' = 9999"
    using rate_fallback_chain[where db = ?db and proj = ?c3 and role = "''Backend Developer''",
        THEN conjunct1] by (simp add: ev)
  have r5: "role_rate (rate_map_dynamic ?db ?c3) ''Data Architect'' = 3500"
    using rate_fallback_chain[where db = ?db and proj = ?c3 and role = "''Data Architect''",
        THEN conjunct1] by (simp add: ev)
  have r6: "role_rate (rate_map_dynamic ?db ?c3) ''Astronaut'' = 2000"
    using rate_fallback_chain[where db = ?db and proj = ?c3 and role = "''Astronaut''",
        THEN conjunct1] by (simp add: ev)
  have r7: "role_rate (rate_map_dynamic ?db (Some \<lparr>company_id = None\<rparr>)) ''Backend Developer'' = 9999"
    using rate_fallback_chain[where db = ?db and proj = "Some \<lparr>company_id = None\<rparr>"
        and role = "''Backend Developer''", THEN conjunct1] by (simp add: ev)
  have r8: "role_rate (rate_map_dynamic ?db None) ''Backend Developer'' = 9999"
    using rate_fallback_chain[where db = ?db and proj = None
        and role = "''Backend Developer''", THEN conjunct1] by (simp add: ev)
  have r9: "role_rate (rate_map_dynamic ?db (Some \<lparr>company_id = Some 4\<rparr>)) ''Backend Developer'' = 3000"
    using rate_fallback_chain[where db = ?db and proj = "Some \<lparr>company_id = Some 4\<rparr>"
        and role = "''Backend Developer''", THEN conjunct1] by (simp add: ev)
  have r10: "role_rate (rate_map_dynamic (Some (demo_db\<lparr>sigmoid_company := Inr None\<rparr>)) ?c3)
      ''Backend Developer'' = 3000"
    using rate_fallback_chain[where db = "Some (demo_db\<lparr>sigmoid_company := Inr None\<rparr>)"
        and proj = ?c3 and role = "''Backend Developer''", THEN conjunct1] by (simp add: ev)
  have r11: "role_rate (rate_map_dynamic None ?c1) ''QA Engineer'' = 2000"
    using rate_fallback_chain[where db = None and proj = ?c1 and role = "''QA Engineer''",
        THEN conjunct1] by (simp add: ev)
  have r12: "role_rate (rate_map_dynamic ?db ?c3) ''QA Engineer'' = 2000"
    using rate_fallback_chain[where db = ?db and proj = ?c3 and role = "''QA Engineer''",
        THEN conjunct1] by (simp add: ev)
  have plan: "map (\<lambda>p. (Plan_Resources p, Rate_month p))
        (plan_of (clean_scope ?t ?db proj (scenario_scope No_Discount)))
      = [(''Backend Developer'', role_rate (rate_map_dynamic ?db proj) ''Backend Developer''),
         (''QA Engineer'', role_rate (rate_map_dynamic ?db proj) ''QA Engineer'')]" for proj
  proof -
    let ?res = "clean_scope ?t ?db proj (scenario_scope No_Discount)"
    have "?res = Inr (projr ?res)" by (simp add: ex_clean_scope)
    with v rate_fallback_chain[where db = ?db and proj = proj and today = ?t
        and data = "scenario_scope No_Discount" and out = "projr ?res", THEN conjunct2]
    obtain pl where pl: "resourcing_plan (projr ?res) = JVal pl"
      "\<forall>p\<in>set pl. Rate_month p = role_rate (rate_map_dynamic ?db proj) (Plan_Resources p)"
      by auto
    from pl(1) have names: "plan_of ?res = pl" "map Plan_Resources pl = [''Backend Developer'', ''QA Engineer'']"
      by (auto simp: ex_clean_scope plan_of_def apply_discount_def discount_applies_def)
    from pl(2) have "map (\<lambda>p. (Plan_Resources p, Rate_month p)) pl
        = map (\<lambda>r. (r, role_rate (rate_map_dynamic ?db proj) r)) (map Plan_Resources pl)"
      by (simp add: comp_def)
    then show ?thesis unfolding names by simp
  qed
  show ?thesis
    unfolding plan r1 r2 r3 r4 r5 r6 r7 r8 r9 r10 r11 r12 by simp
qed

text \<open>
  C1.  The normalizer keeps, for every role, one cell of accumulated overlap days per
  relative month; no cell is negative.  The effort it returns has the same roles in the
  same order and the same number of cells, and every cell of effort is the cell of days
  taken through the tiers: above 21 days 1.0, from 15 to 21 days 0.75, from 8 to 14 days
  0.5, from 1 to 7 days 0.25, and 0 days 0.0.  At the boundaries: 21 and 15 days give
  0.75, 14 and 8 days give 0.5, 7 days give 0.25, 0 days give 0.0.  These cells are what
  the plan of \<^verbatim>\<open>clean_scope\<close> holds as the months of the role.
\<close>

theorem quantization_tiers:
  assumes "normalize today acts = Inr n"
  shows "length (n_role_month_usage n) = length (n_days n)
    \<and> (\<forall>i<length (n_days n).
          fst (n_role_month_usage n ! i) = fst (n_days n ! i)
        \<and> length (snd (n_days n ! i)) = n_total_months n
        \<and> length (snd (n_role_month_usage n ! i)) = n_total_months n
        \<and> (\<forall>m<n_total_months n.
              0 \<le> snd (n_days n ! i) ! m
            \<and> snd (n_role_month_usage n ! i) ! m =
                (let d = snd (n_days n ! i) ! m
                 in if d > 21 then 1
                    else if 15 \<le> d \<and> d \<le> 21 then 3 / 4
                    else if 8 \<le> d \<and> d < 15 then 1 / 2
                    else if 1 \<le> d \<and> d < 8 then 1 / 4
                    else 0)))
    \<and> quantize 22 = 1 \<and> quantize 21 = 3 / 4 \<and> quantize 15 = 3 / 4 \<and> quantize 14 = 1 / 2
    \<and> quantize 8 = 1 / 2 \<and> quantize 7 = 1 / 4 \<and> quantize 1 = 1 / 4 \<and> quantize 0 = 0
    \<and> (\<forall>db proj data out.
          valid_date today \<and> scope_activities data = acts
            \<and> clean_scope today db proj data = Inr out \<longrightarrow>
          (\<exists>plan. resourcing_plan out = JVal plan
             \<and> length plan = length (n_role_month_usage n)
             \<and> (\<forall>i<length plan.
                   Plan_Resources (plan ! i) = fst (n_role_month_usage n ! i)
                 \<and> Months (plan ! i) = snd (n_role_month_usage n ! i))))"
proof (intro conjI allI impI)
  note ok = normalize_days_ok[OF assms]
  show len: "length (n_role_month_usage n) = length (n_days n)"
    by (simp add: ok(2) quantize_usage_def)
  fix i assume i: "i < length (n_days n)"
  note cell = quantize_usage_nth[OF i] usage_ok_nth[OF ok(1) i]
  show "fst (n_role_month_usage n ! i) = fst (n_days n ! i)"
    and "length (snd (n_days n ! i)) = n_total_months n"
    and "length (snd (n_role_month_usage n ! i)) = n_total_months n"
    using cell by (simp_all add: ok(2))
  fix m assume m: "m < n_total_months n"
  show "0 \<le> snd (n_days n ! i) ! m" using cell(2) m by simp
  show "snd (n_role_month_usage n ! i) ! m =
                (let d = snd (n_days n ! i) ! m
                 in if d > 21 then 1
                    else if 15 \<le> d \<and> d \<le> 21 then 3 / 4
                    else if 8 \<le> d \<and> d < 15 then 1 / 2
                    else if 1 \<le> d \<and> d < 8 then 1 / 4
                    else 0)"
    using cell m by (simp add: ok(2) quantize_def Let_def)
next
  fix db proj data out
  assume a: "valid_date today \<and> scope_activities data = acts
            \<and> clean_scope today db proj data = Inr out"
  from plan_entries[of today db proj data out] a assms
  show "\<exists>plan. resourcing_plan out = JVal plan
             \<and> length plan = length (n_role_month_usage n)
             \<and> (\<forall>i<length plan.
                   Plan_Resources (plan ! i) = fst (n_role_month_usage n ! i)
                 \<and> Months (plan ! i) = snd (n_role_month_usage n ! i))"
    by auto
qed (simp_all add: quantize_def)

theorem quantization_tiers_witness:
  "n_days (projr (normalize (2025, 6, 15) [act_A, act_B]))
     = [(''Backend Developer'', [31, 1]), (''QA Engineer'', [43, 22])]
   \<and> n_role_month_usage (projr (normalize (2025, 6, 15) [act_A, act_B]))
     = [(''Backend Developer'', [1, 1 / 4]), (''QA Engineer'', [1, 1])]
   \<and> map Months (plan_of (clean_scope (2025, 6, 15) None None (scenario_scope No_Discount)))
       = [[1, 1 / 4], [1, 1]]"
proof -
  let ?t = "(2025, 6, 15) :: datetime"
  define n where "n = projr (normalize ?t [act_A, act_B])"
  have n: "normalize ?t [act_A, act_B] = Inr n" by (simp add: n_def ex_normalize)
  have d: "n_days n = [(''Backend Developer'', [31, 1]), (''QA Engineer'', [43, 22])]"
    and k: "n_total_months n = 2"
    by (simp_all add: n_def ex_normalize)
  have v: "valid_date ?t" by (simp add: valid_date_def days_in_month_def)
  note t = quantization_tiers[OF n]
  from t have len: "length (n_role_month_usage n) = 2" by (simp add: d)
  from t have c: "\<And>i m. i < 2 \<Longrightarrow> m < 2 \<Longrightarrow>
      fst (n_role_month_usage n ! i) = fst (n_days n ! i)
      \<and> length (snd (n_role_month_usage n ! i)) = 2
      \<and> snd (n_role_month_usage n ! i) ! m =
                (let d = snd (n_days n ! i) ! m
                 in if d > 21 then 1
                    else if 15 \<le> d \<and> d \<le> 21 then 3 / 4
                    else if 8 \<le> d \<and> d < 15 then 1 / 2
                    else if 1 \<le> d \<and> d < 8 then 1 / 4
                    else 0)"
    by (simp add: d k)
  have row0: "n_role_month_usage n ! 0 = (''Backend Developer'', [1, 1 / 4])"
  proof (rule prod_eqI)
    show "fst (n_role_month_usage n ! 0) = fst (''Backend Developer'', [1, 1 / 4 :: rat])"
      using c[of 0 0] by (simp add: d)
    have "length (snd (n_role_month_usage n ! 0)) = 2" using c[of 0 0] by simp
    moreover have "snd (n_role_month_usage n ! 0) ! 0 = 1" using c[of 0 0] by (simp add: d)
    moreover have "snd (n_role_month_usage n ! 0) ! Suc 0 = 1 / 4"
      using c[of 0 "Suc 0"] by (simp add: d)
    ultimately show "snd (n_role_month_usage n ! 0) = snd (''Backend Developer'', [1, 1 / 4 :: rat])"
      by (intro nth_equalityI) (auto simp: less_Suc_eq numeral_2_eq_2)
  qed
  have row1: "n_role_month_usage n ! Suc 0 = (''QA Engineer'', [1, 1])"
  proof (rule prod_eqI)
    show "fst (n_role_month_usage n ! Suc 0) = fst (''QA Engineer'', [1, 1 :: rat])"
      using c[of "Suc 0" 0] by (simp add: d)
    have "length (snd (n_role_month_usage n ! Suc 0)) = 2" using c[of "Suc 0" 0] by simp
    moreover have "snd (n_role_month_usage n ! Suc 0) ! 0 = 1"
      using c[of "Suc 0" 0] by (simp add: d)
    moreover have "snd (n_role_month_usage n ! Suc 0) ! Suc 0 = 1"
      using c[of "Suc 0" "Suc 0"] by (simp add: d)
    ultimately show "snd (n_role_month_usage n ! Suc 0) = snd (''QA Engineer'', [1, 1 :: rat])"
      by (intro nth_equalityI) (auto simp: less_Suc_eq numeral_2_eq_2)
  qed
  have u: "n_role_month_usage n = [(''Backend Developer'', [1, 1 / 4]), (''QA Engineer'', [1, 1])]"
    using len row0 row1 by (intro nth_equalityI) (auto simp: less_Suc_eq numeral_2_eq_2)
  let ?res = "clean_scope ?t None None (scenario_scope No_Discount)"
  obtain out where r: "?res = Inr out" by (simp add: ex_clean_scope)
  have sa: "scope_activities (scenario_scope No_Discount) = [act_A, act_B]"
    by (simp add: scenario_scope_def scope_activities_def)
  from t v sa r obtain plan where plan: "resourcing_plan out = JVal plan"
    "length plan = length (n_role_month_usage n)"
    "\<forall>i<length plan. Months (plan ! i) = snd (n_role_month_usage n ! i)"
    by blast
  have "plan_of ?res = plan" using plan(1) by (simp add: r plan_of_def)
  moreover have "map Months plan = map snd (n_role_month_usage n)"
    using plan(2,3) by (intro nth_equalityI) simp_all
  ultimately have p: "map Months (plan_of ?res) = [[1, 1 / 4], [1, 1]]"
    by (simp add: u)
  show ?thesis using d u p unfolding n_def by simp
qed

text \<open>
  C2.  The claim expects 0.0 for the Backend Developer in Month 2 and a Month 2 of the QA
  Engineer that activity B determines alone.  The windows of the relative months are 30
  days apart and closed at both ends, so 31 January is the last day of Month 1 and the
  first day of Month 2: activity A puts one day into Month 2, for both of its roles.  The
  Backend Developer has 1 day there (0.25), and the QA Engineer 22 days (1.0), one more
  than the 21 days of B (0.75).
\<close>

theorem scenario_counterexample:
  "map_of (n_role_month_usage (projr (normalize (2025, 6, 15) [act_A, act_B]))) ''Backend Developer''
     = Some [1, 1 / 4]
   \<and> map_of (n_role_month_usage (projr (normalize (2025, 6, 15) [act_A, act_B]))) ''Backend Developer''
     \<noteq> Some [1, 0]
   \<and> map_of (n_days (projr (normalize (2025, 6, 15) [act_A, act_B]))) ''QA Engineer''
     = Some [43, 22]
   \<and> overlap_days (2025, 1, 1) (2025, 1, 31) (2025, 1, 31) (2025, 3, 2) = 1
   \<and> overlap_days (2025, 1, 20) (2025, 2, 20) (2025, 1, 31) (2025, 3, 2) = 21
   \<and> quantize 21 = 3 / 4 \<and> quantize 22 = 1"
proof -
  have d: "days_between (2025, 1, 31) (2025, 1, 31) = 0"
    "days_between (2025, 2, 20) (2025, 1, 31) = 20"
    by (simp_all add: ordinal_eval)
  show ?thesis
    by (simp add: ex_normalize overlap_days_def d quantize_def Let_def del: One_nat_def)
qed

text \<open>
  C2, amended.  For the two activities the normalizer returns them unchanged but for the
  effort of B, \<open>K = 2\<close> months, the day counts 31 and 1 for the Backend Developer and 43
  and 22 for the QA Engineer, and so the allocations 1.0 and 0.25 for the Backend
  Developer and 1.0 and 1.0 for the QA Engineer; the plan carries these months,
  whatever the day, the rates and the discount.
\<close>

theorem scenario_allocation:
  "normalize today [act_A, act_B] =
     Inr \<lparr>n_activities = scenario_activities,
          n_role_order = [''Backend Developer'', ''QA Engineer''],
          n_total_months = 2,
          n_days = [(''Backend Developer'', [31, 1]), (''QA Engineer'', [43, 22])],
          n_role_month_usage = [(''Backend Developer'', [1, 1 / 4]), (''QA Engineer'', [1, 1])]\<rparr>
   \<and> map (\<lambda>p. (Plan_Resources p, Months p))
        (plan_of (clean_scope today db proj (scenario_scope dp)))
      = [(''Backend Developer'', [1, 1 / 4]), (''QA Engineer'', [1, 1])]"
  by (simp add: ex_normalize ex_clean_scope plan_of_def apply_discount_def Let_def)

theorem scenario_allocation_witness:
  "n_total_months (projr (normalize (2025, 6, 15) [act_A, act_B])) = 2
   \<and> map Months (plan_of (clean_scope (2025, 6, 15) (Some demo_db) None
        (scenario_scope (Discount_Number 10))))
      = [[1, 1 / 4], [1, 1]]"
proof -
  let ?plan = "plan_of (clean_scope (2025, 6, 15) (Some demo_db) None
        (scenario_scope (Discount_Number 10)))"
  note t = scenario_allocation[of "(2025, 6, 15)" "Some demo_db" None "Discount_Number 10"]
  from t have k: "n_total_months (projr (normalize (2025, 6, 15) [act_A, act_B])) = 2"
    by simp
  from t have a: "map (\<lambda>p. (Plan_Resources p, Months p)) ?plan
      = [(''Backend Developer'', [1, 1 / 4]), (''QA Engineer'', [1, 1])]"
    by (rule conjunct2)
  have "map Months ?plan = map snd (map (\<lambda>p. (Plan_Resources p, Months p)) ?plan)"
    by (simp add: comp_def)
  also have "\<dots> = [[1, 1 / 4], [1, 1]]" unfolding a by simp
  finally show ?thesis using k by simp
qed




text \<open>
  C9.  The claim gives the role \<^verbatim>\<open>Unassigned\<close> the fixed default rate.  The rate of
  \<^verbatim>\<open>Unassigned\<close> is looked up like the rate of any role: a rate card with a row of this
  name sets it.  With the card of company 6 the activity without an owner is planned at
  500 a month, not at 2000.
\<close>

theorem unassigned_owner_counterexample:
  "activities_of (clean_scope (2025, 6, 15) (Some demo_db) (Some \<lparr>company_id = Some 6\<rparr>)
      unassigned_scope) = [unassigned_activity]
   \<and> map (\<lambda>p. (Plan_Resources p, Rate_month p, Months p, Efforts p, Cost p))
        (plan_of (clean_scope (2025, 6, 15) (Some demo_db) (Some \<lparr>company_id = Some 6\<rparr>)
           unassigned_scope))
      = [(''Unassigned'', 500, [1], 1, 500)]
   \<and> (500 :: rat) \<noteq> 2000"
proof -
  have r: "role_rate (rate_map_dynamic (Some demo_db) (Some \<lparr>company_id = Some 6\<rparr>)) ''Unassigned''
      = 500"
    by (simp add: role_rate_chain demo_db_def ROLE_RATE_MAP_def)
  have c: "py_round2 (to_double 500) = 500"
    by (simp add: to_double_numeral py_round2_numeral)
  show ?thesis
    unfolding ex_clean_scope_U r
    by (simp add: plan_of_def activities_of_def c)
qed

text \<open>
  C9, amended.  An activity whose owner is absent, \<^verbatim>\<open>null\<close> or the empty string is
  returned with the owner \<^verbatim>\<open>Unassigned\<close>, and the plan has exactly one entry for the role
  \<^verbatim>\<open>Unassigned\<close>: its months are the cells of the role in the allocation map, one per
  relative month and each one of the five tiers, its efforts are their sum, its cost is
  computed from efforts and rate like every cost, and its rate is the rate of the
  fallback chain for this name: what the rate card in force gives for \<^verbatim>\<open>Unassigned\<close>, and
  2000 when the card has no such row, in particular without a database or when no card
  of the database has one.
\<close>

theorem unassigned_owner:
  assumes "clean_scope today db proj data = Inr out" "valid_date today"
    and "a \<in> set (scope_activities data)"
    and "Owner a = Absent \<or> Owner a = JNull \<or> Owner a = JVal []"
  shows "\<exists>n acts plan.
        normalize today (scope_activities data) = Inr n
      \<and> activities out = JVal acts \<and> resourcing_plan out = JVal plan
      \<and> (\<exists>act\<in>set acts. Owner act = JVal ''Unassigned''
            \<and> Activities act = JVal (safe_str (Activities a))
            \<and> Description act = JVal (safe_str (Description a)))
      \<and> (\<exists>i<length plan.
            Plan_Resources (plan ! i) = ''Unassigned''
          \<and> (\<forall>j<length plan. Plan_Resources (plan ! j) = ''Unassigned'' \<longrightarrow> j = i)
          \<and> Plan_ID (plan ! i) = 1 + int i
          \<and> map_of (n_role_month_usage n) ''Unassigned'' = Some (Months (plan ! i))
          \<and> length (Months (plan ! i)) = n_total_months n
          \<and> (\<forall>x\<in>set (Months (plan ! i)). x \<in> {0, 1 / 4, 1 / 2, 3 / 4, 1})
          \<and> Efforts (plan ! i) = sum_list (Months (plan ! i))
          \<and> Rate_month (plan ! i) =
              (case rate_map_dynamic db proj ''Unassigned'' of Some r \<Rightarrow> r | None \<Rightarrow> 2000)
          \<and> (db = None \<longrightarrow> Rate_month (plan ! i) = 2000)
          \<and> ((\<forall>d cid rows. db = Some d \<and> rate_cards d cid = Inr rows
                  \<longrightarrow> ''Unassigned'' \<notin> fst ` set rows)
               \<longrightarrow> Rate_month (plan ! i) = 2000)
          \<and> Cost (plan ! i) =
              (if discount_applies (discount_percentage data)
               then py_round2 (to_double
                      (py_round2 (to_double (Efforts (plan ! i) * Rate_month (plan ! i)))
                       * discount_multiplier (discount_value (discount_percentage data))))
               else py_round2 (to_double (Efforts (plan ! i) * Rate_month (plan ! i)))))"
proof -
  let ?U = "''Unassigned''"
  from plan_entries[OF assms(1,2)] obtain n plan where
    n: "normalize today (scope_activities data) = Inr n"
    and acts: "activities out = JVal (n_activities n)"
    and plan: "resourcing_plan out = JVal plan"
    and len: "length plan = length (n_role_month_usage n)"
    and dist: "distinct (map fst (n_role_month_usage n))"
    and entry: "\<forall>i<length plan.
            Plan_ID (plan ! i) = 1 + int i
          \<and> Plan_Resources (plan ! i) = fst (n_role_month_usage n ! i)
          \<and> Rate_month (plan ! i) = role_rate (rate_map_dynamic db proj) (Plan_Resources (plan ! i))
          \<and> Months (plan ! i) = snd (n_role_month_usage n ! i)
          \<and> Efforts (plan ! i) = sum_list (Months (plan ! i))
          \<and> Cost (plan ! i) =
              (if discount_applies (discount_percentage data)
               then py_round2 (to_double
                      (py_round2 (to_double (Efforts (plan ! i) * Rate_month (plan ! i)))
                       * discount_multiplier (discount_value (discount_percentage data))))
               else py_round2 (to_double (Efforts (plan ! i) * Rate_month (plan ! i))))"
    by blast
  note parts = normalize_parts[OF n assms(2)]
  from parts(1) obtain ds where ds: "dated_list today 1 (scope_activities data) = Inr ds"
    and out_acts: "n_activities n = renumber 1 (sort_key d_Start ds)"
    and order: "n_role_order n = fold add_role (concat (map roles_of (scope_activities data))) []"
    by blast
  have owner: "owner_of a = ?U" using assms(4) by (auto simp: owner_of_def get_or_def)
  from dated_list_mem[OF ds assms(3)] obtain d i where d: "d \<in> set ds"
    "dated_of today i a = Inr d"
    by blast
  from d(2) owner have fields: "d_Owner d = ?U" "d_Activities d = safe_str (Activities a)"
    "d_Description d = safe_str (Description a)"
    by (auto simp: dated_of_def Let_def split: sum.splits prod.splits)
  from d(1) have "d \<in> set (sort_key d_Start ds)" by simp
  from renumber_mem[OF this, of 1] obtain j where
    "finish_activity j d \<in> set (n_activities n)"
    unfolding out_acts by blast
  then have act: "\<exists>act\<in>set (n_activities n). Owner act = JVal ?U
            \<and> Activities act = JVal (safe_str (Activities a))
            \<and> Description act = JVal (safe_str (Description a))"
    using fields by (intro bexI[of _ "finish_activity j d"]) (simp_all add: finish_activity_def)
  have "?U \<in> set (roles_of a)" using owner by (simp add: roles_of_def)
  with assms(3) have "?U \<in> set (n_role_order n)"
    unfolding order set_fold_add_role by auto
  then have "?U \<in> set (map fst (n_role_month_usage n))" by (simp only: parts(3))
  then obtain k where k: "k < length (n_role_month_usage n)"
    "fst (n_role_month_usage n ! k) = ?U"
    by (auto simp: in_set_conv_nth)
  have uniq: "j = k" if "j < length plan" "Plan_Resources (plan ! j) = ?U" for j
  proof -
    from that entry k len have "fst (n_role_month_usage n ! j) = fst (n_role_month_usage n ! k)"
      by simp
    then have "map fst (n_role_month_usage n) ! j = map fst (n_role_month_usage n) ! k"
      using that(1) k(1) len by simp
    moreover have "j < length (map fst (n_role_month_usage n))"
      "k < length (map fst (n_role_month_usage n))"
      using that(1) k(1) len by simp_all
    ultimately show ?thesis using nth_eq_iff_index_eq[OF dist] by blast
  qed
  from k len have kp: "k < length plan" by simp
  note e = entry[rule_format, OF kp]
  have role: "Plan_Resources (plan ! k) = ?U" using e k(2) by simp
  have months: "Months (plan ! k) = snd (n_role_month_usage n ! k)" using e by simp
  have row: "map_of (n_role_month_usage n) ?U = Some (Months (plan ! k))"
    using map_of_nth[OF dist k(1)] k(2) months by simp
  have kd: "k < length (n_days n)" using k(1) by (simp add: parts(5) quantize_usage_def)
  have cells: "Months (plan ! k) = map quantize (snd (n_days n ! k))"
    using quantize_usage_nth[OF kd] months by (simp add: parts(5))
  have mlen: "length (Months (plan ! k)) = n_total_months n"
    using usage_ok_nth[OF parts(4) kd] cells by simp
  have tiers: "\<forall>x\<in>set (Months (plan ! k)). x \<in> {0, 1 / 4, 1 / 2, 3 / 4, 1}"
    unfolding cells using quantize_tier by auto
  have builtin: "map_of ROLE_RATE_MAP ?U = None" by (simp add: ROLE_RATE_MAP_def)
  have rate: "Rate_month (plan ! k) =
      (case rate_map_dynamic db proj ?U of Some r \<Rightarrow> r | None \<Rightarrow> 2000)"
  proof -
    from e have "Rate_month (plan ! k) = role_rate (rate_map_dynamic db proj) ?U"
      unfolding role by simp
    then show ?thesis unfolding role_rate_def builtin by (simp split: option.splits)
  qed
  have r0: "db = None \<longrightarrow> Rate_month (plan ! k) = 2000"
    using rate by (auto simp: rate_map_dynamic_def builtin)
  have r1: "(\<forall>d cid rows. db = Some d \<and> rate_cards d cid = Inr rows
                  \<longrightarrow> ?U \<notin> fst ` set rows)
               \<longrightarrow> Rate_month (plan ! k) = 2000"
  proof
    assume "\<forall>d cid rows. db = Some d \<and> rate_cards d cid = Inr rows
                  \<longrightarrow> ?U \<notin> fst ` set rows"
    from unlisted_rate[OF builtin this, of proj] e show "Rate_month (plan ! k) = 2000"
      unfolding role by simp
  qed
  have "\<exists>i<length plan.
            Plan_Resources (plan ! i) = ?U
          \<and> (\<forall>j<length plan. Plan_Resources (plan ! j) = ?U \<longrightarrow> j = i)
          \<and> Plan_ID (plan ! i) = 1 + int i
          \<and> map_of (n_role_month_usage n) ?U = Some (Months (plan ! i))
          \<and> length (Months (plan ! i)) = n_total_months n
          \<and> (\<forall>x\<in>set (Months (plan ! i)). x \<in> {0, 1 / 4, 1 / 2, 3 / 4, 1})
          \<and> Efforts (plan ! i) = sum_list (Months (plan ! i))
          \<and> Rate_month (plan ! i) =
              (case rate_map_dynamic db proj ?U of Some r \<Rightarrow> r | None \<Rightarrow> 2000)
          \<and> (db = None \<longrightarrow> Rate_month (plan ! i) = 2000)
          \<and> ((\<forall>d cid rows. db = Some d \<and> rate_cards d cid = Inr rows
                  \<longrightarrow> ?U \<notin> fst ` set rows)
               \<longrightarrow> Rate_month (plan ! i) = 2000)
          \<and> Cost (plan ! i) =
              (if discount_applies (discount_percentage data)
               then py_round2 (to_double
                      (py_round2 (to_double (Efforts (plan ! i) * Rate_month (plan ! i)))
                       * discount_multiplier (discount_value (discount_percentage data))))
               else py_round2 (to_double (Efforts (plan ! i) * Rate_month (plan ! i))))"
    using kp role uniq row mlen tiers rate r0 r1 e
    by (intro exI[of _ k]) blast
  with n acts plan act show ?thesis by blast
qed

theorem unassigned_owner_witness:
  "activities_of (clean_scope (2025, 6, 15) None None unassigned_scope) = [unassigned_activity]
   \<and> map (\<lambda>p. (Plan_Resources p, Rate_month p, Months p, Efforts p, Cost p))
        (plan_of (clean_scope (2025, 6, 15) None None unassigned_scope))
      = [(''Unassigned'', 2000, [1], 1, 2000)]"
proof -
  let ?t = "(2025, 6, 15) :: datetime"
  let ?res = "clean_scope ?t None None unassigned_scope"
  have v: "valid_date ?t" by (simp add: valid_date_def days_in_month_def)
  obtain out where o: "?res = Inr out" by (simp add: ex_clean_scope_U)
  have a: "act_U \<in> set (scope_activities unassigned_scope)"
    by (simp add: unassigned_scope_def scope_activities_def)
  have ow: "Owner act_U = Absent \<or> Owner act_U = JNull \<or> Owner act_U = JVal []"
    by (simp add: act_U_def)
  from unassigned_owner[OF o v a ow] obtain plan i where
    plan: "resourcing_plan out = JVal plan" "i < length plan"
    "Plan_Resources (plan ! i) = ''Unassigned''" "Rate_month (plan ! i) = 2000"
    by auto
  have e: "plan_of ?res =
      [\<lparr>Plan_ID = 1, Plan_Resources = ''Unassigned'',
               Rate_month = role_rate (rate_map_dynamic None None) ''Unassigned'',
               Months = [1], Efforts = 1,
               Cost = py_round2 (to_double
                        (1 * role_rate (rate_map_dynamic None None) ''Unassigned''))\<rparr>]"
    by (simp add: ex_clean_scope_U plan_of_def)
  have "plan_of ?res = plan" using plan(1) by (simp add: o plan_of_def)
  with e plan(2,4) have r: "role_rate (rate_map_dynamic None None) ''Unassigned'' = 2000"
    by auto
  have c: "py_round2 (to_double 2000) = 2000"
    by (simp add: to_double_numeral py_round2_numeral)
  show ?thesis
    unfolding e r by (simp add: ex_clean_scope_U activities_of_def c)
qed

end
